theory Spec2Isabelle
  imports Main "HOL-Library.Sublist"
begin

section \<open>Text and characters\<close>

text \<open>
  The script \<^verbatim>\<open>update_translations.py\<close> reads one text file, rewrites its content with
  an ordered catalogue of \<^verbatim>\<open>re.sub\<close> calls and writes the result back.

  A text is a \<^typ>\<open>string\<close>: each \<^typ>\<open>char\<close> stands for one character (code point) of
  the Python \<^verbatim>\<open>str\<close>, for the code points below 256.  Isabelle's string literals
  cannot hold a backslash or a double single quote, so the three characters below are
  written by name: the Python raw string \<^verbatim>\<open>r'{t(\'a\')}\n'\<close> is
  \<open>''{t('' @ [bsl, sq] @ ''a'' @ [bsl, sq] @ '')}'' @ [bsl] @ ''n''\<close>.
\<close>

abbreviation bsl :: char where "bsl \<equiv> CHR 0x5C"
abbreviation sq :: char where "sq \<equiv> CHR 0x27"
abbreviation newline :: char where "newline \<equiv> CHR 0x0A"

text \<open>The character sets of \<^verbatim>\<open>sre_parse\<close>.\<close>

definition SPECIAL_CHARS :: "char set" where
  \<open>SPECIAL_CHARS = set (''.[{()*+?^$|'' @ [bsl])\<close>

definition DIGITS :: "char set" where
  "DIGITS = set ''0123456789''"

definition OCTDIGITS :: "char set" where
  "OCTDIGITS = set ''01234567''"

definition ASCIILETTERS :: "char set" where
  "ASCIILETTERS = set ''abcdefghijklmnopqrstuvwxyzABCDEFGHIJKLMNOPQRSTUVWXYZ''"

text \<open>
  \<^verbatim>\<open>\s\<close> in a \<^verbatim>\<open>str\<close> pattern is Unicode white space; below 256 these are the
  code points 9 to 13, 28 to 32, 0x85 and 0xA0.
\<close>

definition is_space :: "char \<Rightarrow> bool" where
  "is_space c \<longleftrightarrow> c \<in> set [CHR 0x09, CHR 0x0A, CHR 0x0B, CHR 0x0C, CHR 0x0D,
     CHR 0x1C, CHR 0x1D, CHR 0x1E, CHR 0x1F, CHR 0x20, CHR 0x85, CHR 0xA0]"

section \<open>Errors of the regular-expression engine\<close>

text \<open>
  Python raises \<^verbatim>\<open>re.error\<close> with one of these messages.  \<open>NotModelled\<close> is not a
  Python error: it marks a construct of \<^verbatim>\<open>re\<close> that this development does not cover
  (sets, anchors, counted and lazy repeats, group extensions, back references, named and
  octal references, the word classes), about which nothing is stated.
\<close>

datatype re_error =
    NothingToRepeat             \<comment> \<open>nothing to repeat\<close>
  | MultipleRepeat              \<comment> \<open>multiple repeat\<close>
  | MissingParen                \<comment> \<open>missing ), unterminated subpattern\<close>
  | UnbalancedParen             \<comment> \<open>unbalanced parenthesis\<close>
  | BadEscape char              \<comment> \<open>bad escape \c\<close>
  | BadEscapeEnd                \<comment> \<open>bad escape (end of pattern)\<close>
  | InvalidGroupReference nat   \<comment> \<open>invalid group reference n\<close>
  | NotModelled

section \<open>Parsed patterns\<close>

datatype category = CATEGORY_SPACE | CATEGORY_NOT_SPACE

datatype repeat = Optional | ZeroOrMore | OneOrMore
  \<comment> \<open>\<^verbatim>\<open>MAX_REPEAT\<close> with bounds (0, 1), (0, MAXREPEAT) and (1, MAXREPEAT)\<close>

datatype regex =
    Literal char
  | AnyChar
  | Category category
  | Empty
  | Seq regex regex
  | Branch regex regex
  | MaxRepeat repeat regex
  | Subpattern nat regex

fun in_category :: "category \<Rightarrow> char \<Rightarrow> bool" where
  "in_category CATEGORY_SPACE c = is_space c"
| "in_category CATEGORY_NOT_SPACE c = (\<not> is_space c)"

fun is_repeat :: "regex \<Rightarrow> bool" where
  "is_repeat (MaxRepeat k p) = True"
| "is_repeat p = False"

text \<open>A sequence of items, and the alternatives of a \<^verbatim>\<open>BRANCH\<close>, in listed order.\<close>

fun seq_of :: "regex list \<Rightarrow> regex" where
  "seq_of [] = Empty"
| "seq_of (p # ps) = Seq p (seq_of ps)"

fun branch_of :: "regex list \<Rightarrow> regex" where
  "branch_of [] = Empty"
| "branch_of [p] = p"
| "branch_of (p # ps) = Branch p (branch_of ps)"

section \<open>The pattern parser\<close>

text \<open>
  \<^verbatim>\<open>sre_parse._escape\<close>: the item denoted by a backslash followed by \<open>c\<close>.
\<close>

definition escape :: "char \<Rightarrow> re_error + regex" where
  "escape c =
     (if c = CHR ''s'' then Inr (Category CATEGORY_SPACE)
      else if c = CHR ''S'' then Inr (Category CATEGORY_NOT_SPACE)
      else if c \<in> set ''AbBdDwWZ'' then Inl NotModelled
      else if c = CHR ''a'' then Inr (Literal (CHR 0x07))
      else if c = CHR ''f'' then Inr (Literal (CHR 0x0C))
      else if c = CHR ''n'' then Inr (Literal (CHR 0x0A))
      else if c = CHR ''r'' then Inr (Literal (CHR 0x0D))
      else if c = CHR ''t'' then Inr (Literal (CHR 0x09))
      else if c = CHR ''v'' then Inr (Literal (CHR 0x0B))
      else if c \<in> set ''xuUN'' \<or> c \<in> DIGITS then Inl NotModelled
      else if c \<in> ASCIILETTERS then Inl (BadEscape c)
      else Inr (Literal c))"

text \<open>
  The tokenizer of \<^verbatim>\<open>sre_parse\<close> reads a backslash together with the character
  after it.  A final backslash with nothing after it raises \<open>BadEscapeEnd\<close> when the
  tokenizer reaches it, which is when the token before it is taken (it reads one token
  ahead): \<open>Lone\<close> stands for it.
\<close>

datatype token = Chr char | Esc char | Lone

fun tokenize :: "string \<Rightarrow> token list" where
  "tokenize [] = []"
| "tokenize [c] = (if c = bsl then [Lone] else [Chr c])"
| "tokenize (c # d # cs) = (if c = bsl then Esc d # tokenize cs else Chr c # tokenize (d # cs))"

text \<open>
  \<^verbatim>\<open>sre_parse.parse\<close>, with the recursion of \<^verbatim>\<open>_parse_sub\<close> and \<^verbatim>\<open>_parse\<close> on
  groups kept as an explicit stack.  The parser state is: the number of groups opened so
  far; a stack with, for each open group, its number and the alternatives and items read
  before its parenthesis; the finished alternatives and the items of the current
  alternative at the current nesting level, latest first.
\<close>

type_synonym frame = "nat \<times> regex list \<times> regex list"
type_synonym parser_state = "nat \<times> frame list \<times> regex list \<times> regex list"

definition close_sub :: "regex list \<Rightarrow> regex list \<Rightarrow> regex" where
  "close_sub alts items = branch_of (rev (seq_of (rev items) # alts))"

definition repeat_of :: "char \<Rightarrow> repeat" where
  "repeat_of c = (if c = CHR ''?'' then Optional else if c = CHR ''*'' then ZeroOrMore else OneOrMore)"

text \<open>One round of the loop of \<^verbatim>\<open>_parse\<close>: the token \<open>this\<close>, before the tokens \<open>next\<close>.\<close>

definition parse_item :: "token \<Rightarrow> token list \<Rightarrow> parser_state \<Rightarrow> re_error + parser_state" where
  "parse_item this next st =
     (case st of (groups, stack, alts, items) \<Rightarrow>
        (case this of
           Lone \<Rightarrow> Inl BadEscapeEnd
         | Esc e \<Rightarrow>
             if next = [Lone] then Inl BadEscapeEnd
             else (case escape e of
                     Inl err \<Rightarrow> Inl err
                   | Inr item \<Rightarrow> Inr (groups, stack, alts, item # items))
         | Chr c \<Rightarrow>
             if c = CHR '')'' \<and> stack = [] then Inl UnbalancedParen
             else if next = [Lone] then Inl BadEscapeEnd
             else if c = CHR ''|'' then Inr (groups, stack, seq_of (rev items) # alts, [])
             else if c = CHR '')'' then
               (case stack of
                  [] \<Rightarrow> Inl UnbalancedParen
                | (g, alts', items') # stack' \<Rightarrow>
                    Inr (groups, stack', alts', Subpattern g (close_sub alts items) # items'))
             else if c = CHR ''('' then
               (if next \<noteq> [] \<and> hd next = Chr (CHR ''?'') then Inl NotModelled
                else Inr (Suc groups, (Suc groups, alts, items) # stack, [], []))
             else if c \<in> set ''*+?'' then
               (case items of
                  [] \<Rightarrow> Inl NothingToRepeat
                | item # items' \<Rightarrow>
                    if is_repeat item then Inl MultipleRepeat
                    else if next \<noteq> [] \<and> (hd next = Chr (CHR ''?'') \<or> hd next = Chr (CHR ''+''))
                      then Inl NotModelled
                    else Inr (groups, stack, alts, MaxRepeat (repeat_of c) item # items'))
             else if c = CHR ''.'' then Inr (groups, stack, alts, AnyChar # items)
             else if c \<in> SPECIAL_CHARS then Inl NotModelled
             else Inr (groups, stack, alts, Literal c # items)))"

fun parse :: "token list \<Rightarrow> parser_state \<Rightarrow> re_error + regex \<times> nat" where
  "parse [] st =
     (case st of (groups, stack, alts, items) \<Rightarrow>
        if stack = [] then Inr (close_sub alts items, groups) else Inl MissingParen)"
| "parse (this # next) st =
     (case parse_item this next st of
        Inl err \<Rightarrow> Inl err
      | Inr st' \<Rightarrow> parse next st')"

text \<open>\<^verbatim>\<open>re.compile\<close>: the parsed pattern and its number of groups.\<close>

definition compile :: "string \<Rightarrow> re_error + regex \<times> nat" where
  "compile pattern = parse (tokenize pattern) (0, [], [], [])"

section \<open>The matcher\<close>

text \<open>
  A backtracking matcher as the list of its successes, in the order in which the engine
  tries them: each success is the text left after the match and the groups captured.
  The first success is the engine's match.  A greedy repeat tries one more iteration
  before it tries to stop, and does not iterate again after an iteration that consumed
  nothing.  The latest binding of a group is the first in the list.
\<close>

type_synonym captures = "(nat \<times> string) list"

fun sre_match :: "regex \<Rightarrow> string \<Rightarrow> captures \<Rightarrow> (string \<times> captures) list" where
  "sre_match (Literal c) s caps =
     (case s of [] \<Rightarrow> [] | x # xs \<Rightarrow> if x = c then [(xs, caps)] else [])"
| "sre_match AnyChar s caps =
     (case s of [] \<Rightarrow> [] | x # xs \<Rightarrow> if x \<noteq> newline then [(xs, caps)] else [])"
| "sre_match (Category k) s caps =
     (case s of [] \<Rightarrow> [] | x # xs \<Rightarrow> if in_category k x then [(xs, caps)] else [])"
| "sre_match Empty s caps = [(s, caps)]"
| "sre_match (Seq p q) s caps =
     concat (map (\<lambda>(s', caps'). sre_match q s' caps') (sre_match p s caps))"
| "sre_match (Branch p q) s caps = sre_match p s caps @ sre_match q s caps"
| "sre_match (Subpattern g p) s caps =
     map (\<lambda>(s', caps'). (s', (g, take (length s - length s') s) # caps')) (sre_match p s caps)"
| "sre_match (MaxRepeat Optional p) s caps = sre_match p s caps @ [(s, caps)]"
| "sre_match (MaxRepeat OneOrMore p) s caps =
     concat (map (\<lambda>(s', caps').
                    if length s' < length s then sre_match (MaxRepeat ZeroOrMore p) s' caps'
                    else [(s', caps')])
                 (sre_match p s caps))"
| "sre_match (MaxRepeat ZeroOrMore p) s caps =
     concat (map (\<lambda>(s', caps').
                    if length s' < length s then sre_match (MaxRepeat ZeroOrMore p) s' caps'
                    else [(s', caps')])
                 (sre_match p s caps))
     @ [(s, caps)]"

text \<open>
  \<^verbatim>\<open>sre_search\<close>: the leftmost match at or after the start of \<open>s\<close>, as the text
  skipped, the text matched, the text left and the groups.  With \<open>must_advance\<close> an
  empty match at the start itself is refused, and the engine backtracks.
\<close>

fun sre_search :: "regex \<Rightarrow> string \<Rightarrow> bool \<Rightarrow> (string \<times> string \<times> string \<times> captures) option" where
  "sre_search re s must_advance =
     (case List.find (\<lambda>(s', caps). \<not> must_advance \<or> length s' < length s) (sre_match re s []) of
        Some (s', caps) \<Rightarrow> Some ([], take (length s - length s') s, s', caps)
      | None \<Rightarrow>
          (case s of
             [] \<Rightarrow> None
           | x # xs \<Rightarrow>
               map_option (\<lambda>(skipped, matched, rest, caps). (x # skipped, matched, rest, caps))
                 (sre_search re xs False)))"

text \<open>
  A match ends inside the text it started in, so a search splits the text into the part
  skipped, the part matched and the part left; this is what makes the substitution loop
  below terminate.
\<close>

declare sre_match.simps [simp del]
declare sre_search.simps [simp del]

lemma find_SomeD: "List.find P xs = Some x \<Longrightarrow> P x \<and> x \<in> set xs"
  by (auto simp: find_Some_iff)

lemma sre_match_suffix:
  "(s', caps') \<in> set (sre_match re s caps) \<Longrightarrow> \<exists>pre. s = pre @ s'"
proof (induction re s caps arbitrary: s' caps' rule: sre_match.induct)
  case (1 c s caps) then show ?case by (cases s) (auto simp: sre_match.simps split: if_splits)
next
  case (2 s caps) then show ?case by (cases s) (auto simp: sre_match.simps split: if_splits)
next
  case (3 k s caps) then show ?case by (cases s) (auto simp: sre_match.simps split: if_splits)
next
  case (4 s caps) then show ?case by (simp add: sre_match.simps)
next
  case (5 p q s caps)
  from 5(3) obtain s1 c1 where a: "(s1, c1) \<in> set (sre_match p s caps)"
    and b: "(s', caps') \<in> set (sre_match q s1 c1)" by (auto simp: sre_match.simps)
  from 5(1)[OF a] obtain pre1 where "s = pre1 @ s1" by blast
  moreover from 5(2)[OF a refl b] obtain pre2 where "s1 = pre2 @ s'" by blast
  ultimately show ?case by simp
next
  case (6 p q s caps) then show ?case by (auto simp: sre_match.simps)
next
  case (7 g p s caps) then show ?case by (auto simp: sre_match.simps)
next
  case (8 p s caps) then show ?case by (auto simp: sre_match.simps)
next
  case (9 p s caps)
  from 9(3) obtain s1 c1 where a: "(s1, c1) \<in> set (sre_match p s caps)"
    and b: "(s', caps') \<in> set (if length s1 < length s then sre_match (MaxRepeat ZeroOrMore p) s1 c1 else [(s1, c1)])"
    by (auto simp: sre_match.simps(9)[of p s caps])
  from 9(1)[OF a] obtain pre1 where p1: "s = pre1 @ s1" by blast
  show ?case
  proof (cases "length s1 < length s")
    case True
    with b 9(2)[OF a refl True] obtain pre2 where "s1 = pre2 @ s'" by auto
    with p1 show ?thesis by simp
  next
    case False with b p1 show ?thesis by auto
  qed
next
  case (10 p s caps)
  show ?case
  proof (cases "(s', caps') = (s, caps)")
    case True then show ?thesis by simp
  next
    case False
    with 10(3) obtain s1 c1 where a: "(s1, c1) \<in> set (sre_match p s caps)"
      and b: "(s', caps') \<in> set (if length s1 < length s then sre_match (MaxRepeat ZeroOrMore p) s1 c1 else [(s1, c1)])"
      by (auto simp: sre_match.simps(10)[of p s caps])
    from 10(1)[OF a] obtain pre1 where p1: "s = pre1 @ s1" by blast
    show ?thesis
    proof (cases "length s1 < length s")
      case True
      with b 10(2)[OF a refl True] obtain pre2 where "s1 = pre2 @ s'" by auto
      with p1 show ?thesis by simp
    next
      case False with b p1 show ?thesis by auto
    qed
  qed
qed

lemma sre_search_split:
  "sre_search re s ma = Some (skipped, matched, rest, caps) \<Longrightarrow>
     s = skipped @ matched @ rest \<and> (ma \<longrightarrow> skipped @ matched \<noteq> [])"
proof (induction s arbitrary: ma skipped matched rest caps)
  case Nil
  then show ?case
    by (auto simp: sre_search.simps[of _ "[]"] split: option.splits prod.splits dest!: find_SomeD sre_match_suffix)
next
  case (Cons x xs)
  show ?case
  proof (cases "List.find (\<lambda>(s', caps). \<not> ma \<or> length s' < length (x # xs)) (sre_match re (x # xs) [])")
    case None
    with Cons.prems obtain sk where sk: "skipped = x # sk"
      and r: "sre_search re xs False = Some (sk, matched, rest, caps)"
      by (auto simp: sre_search.simps[of _ "x # xs"] split: prod.splits)
    from Cons.IH[OF r] sk show ?thesis by simp
  next
    case (Some a)
    obtain s' c' where a: "a = (s', c')" by (cases a)
    from Some a have mem: "(s', c') \<in> set (sre_match re (x # xs) [])"
      and ok: "\<not> ma \<or> length s' < length (x # xs)"
      by (auto dest: find_SomeD)
    from sre_match_suffix[OF mem] obtain pre where pre: "x # xs = pre @ s'" by blast
    from Cons.prems Some a have eq: "skipped = []" "matched = take (length (x # xs) - length s') (x # xs)" "rest = s'"
      by (auto simp: sre_search.simps[of _ "x # xs"])
    from pre have "take (length (x # xs) - length s') (x # xs) = pre"
      by (metis add_diff_cancel_right' append_eq_conv_conj length_append)
    with eq pre ok show ?thesis by auto
  qed
qed

section \<open>Replacement templates\<close>

text \<open>
  \<^verbatim>\<open>sre_parse.parse_template\<close>: a replacement string is a sequence of characters to
  emit and of references to groups.  It is read with the tokenizer of the patterns.
\<close>

datatype titem = TLiteral char | TGroup nat

definition digit_of :: "char \<Rightarrow> nat" where
  "digit_of c = length (takeWhile (\<lambda>d. d \<noteq> c) ''0123456789'')"

text \<open>
  The escapes other than group references: the entries of \<^verbatim>\<open>ESCAPES\<close> denote one
  character; any other ASCII letter is an error; any other character is kept together with
  its backslash.
\<close>

definition template_escape :: "char \<Rightarrow> re_error + titem list" where
  "template_escape c =
     (if c = CHR ''g'' \<or> c = CHR ''0'' then Inl NotModelled
      else if c = CHR ''a'' then Inr [TLiteral (CHR 0x07)]
      else if c = CHR ''b'' then Inr [TLiteral (CHR 0x08)]
      else if c = CHR ''f'' then Inr [TLiteral (CHR 0x0C)]
      else if c = CHR ''n'' then Inr [TLiteral (CHR 0x0A)]
      else if c = CHR ''r'' then Inr [TLiteral (CHR 0x0D)]
      else if c = CHR ''t'' then Inr [TLiteral (CHR 0x09)]
      else if c = CHR ''v'' then Inr [TLiteral (CHR 0x0B)]
      else if c = bsl then Inr [TLiteral bsl]
      else if c \<in> ASCIILETTERS then Inl (BadEscape c)
      else Inr [TLiteral bsl, TLiteral c])"

definition add_items :: "titem list \<Rightarrow> re_error + titem list \<Rightarrow> re_error + titem list" where
  "add_items its r = (case r of Inl err \<Rightarrow> Inl err | Inr its' \<Rightarrow> Inr (its @ its'))"

definition addgroup :: "nat \<Rightarrow> nat \<Rightarrow> re_error + titem list \<Rightarrow> re_error + titem list" where
  "addgroup index groups r =
     (if index > groups then Inl (InvalidGroupReference index) else add_items [TGroup index] r)"

definition is_octal_start :: "char \<Rightarrow> char \<Rightarrow> token list \<Rightarrow> bool" where
  "is_octal_start c d next \<longleftrightarrow>
     c \<in> OCTDIGITS \<and> d \<in> OCTDIGITS \<and> (case next of Chr e # _ \<Rightarrow> e \<in> OCTDIGITS | _ \<Rightarrow> False)"

fun parse_template :: "token list \<Rightarrow> nat \<Rightarrow> re_error + titem list" where
  "parse_template [] groups = Inr []"
| "parse_template (Lone # next) groups = Inl BadEscapeEnd"
| "parse_template (Chr c # next) groups =
     (if next = [Lone] then Inl BadEscapeEnd
      else add_items [TLiteral c] (parse_template next groups))"
| "parse_template (Esc c # next) groups =
     (if next = [Lone] then Inl BadEscapeEnd
      else if c \<in> DIGITS \<and> c \<noteq> CHR ''0'' then
        (case next of
           Chr d # next' \<Rightarrow>
             if d \<in> DIGITS then
               (if next' = [Lone] then Inl BadEscapeEnd
                else if is_octal_start c d next' then Inl NotModelled
                else addgroup (10 * digit_of c + digit_of d) groups (parse_template next' groups))
             else addgroup (digit_of c) groups (parse_template next groups)
         | _ \<Rightarrow> addgroup (digit_of c) groups (parse_template next groups))
      else (case template_escape c of
              Inl err \<Rightarrow> Inl err
            | Inr its \<Rightarrow> add_items its (parse_template next groups)))"

text \<open>The text a template stands for at one match; a group that took no part is empty.\<close>

fun expand_template :: "titem list \<Rightarrow> captures \<Rightarrow> string" where
  "expand_template [] caps = []"
| "expand_template (TLiteral c # its) caps = c # expand_template its caps"
| "expand_template (TGroup g # its) caps =
     (case map_of caps g of None \<Rightarrow> [] | Some t \<Rightarrow> t) @ expand_template its caps"

section \<open>Substitution\<close>

text \<open>
  The loop of \<^verbatim>\<open>pattern_subx\<close> in \<^verbatim>\<open>_sre.c\<close>, which \<^verbatim>\<open>re.sub\<close> and
  \<^verbatim>\<open>re.subn\<close> share: search from the end of the last match, copy the text skipped,
  emit the template, count the match, and go on; after an empty match the next one must
  advance.  The text after the last match is copied unchanged.
\<close>

function pattern_subx :: "regex \<Rightarrow> titem list \<Rightarrow> string \<Rightarrow> bool \<Rightarrow> string \<times> nat" where
  "pattern_subx re template s must_advance =
     (case sre_search re s must_advance of
        None \<Rightarrow> (s, 0)
      | Some (skipped, matched, rest, caps) \<Rightarrow>
          (case pattern_subx re template rest (matched = []) of
             (out, n) \<Rightarrow> (skipped @ expand_template template caps @ out, Suc n)))"
  by pat_completeness auto
termination
proof (relation "measure (\<lambda>(re, template, s, must_advance). 2 * length s + (if must_advance then 0 else 1))", goal_cases)
  case 1 show ?case by simp
next
  case (2 re template s must_advance x2 skipped y matched z rest caps)
  then have "sre_search re s must_advance = Some (skipped, matched, rest, caps)" by simp
  from sre_search_split[OF this]
  have len: "length s = length skipped + length matched + length rest"
    and adv: "must_advance \<Longrightarrow> 0 < length skipped + length matched"
    by auto
  have lm: "matched \<noteq> [] \<Longrightarrow> 1 \<le> length matched" by (cases matched) auto
  have "2 * length rest + (if matched = [] then 0 else 1)
          < 2 * length s + (if must_advance then 0 else (1::nat))"
  proof (cases "matched = []")
    case True
    show ?thesis
    proof (cases must_advance)
      case True
      with adv have "0 < length skipped + length matched" by blast
      with len \<open>matched = []\<close> True show ?thesis by simp
    next
      case False
      with len \<open>matched = []\<close> show ?thesis by simp
    qed
  next
    case False
    from lm[OF False] len have "length rest < length s" by linarith
    with False show ?thesis by (cases must_advance) simp_all
  qed
  then show ?case by simp
qed

declare pattern_subx.simps [simp del]

text \<open>
  \<^verbatim>\<open>re.subn(pattern, repl, string)\<close> compiles the pattern, then reads the template
  against the pattern's number of groups, then substitutes; it returns the new text and
  the number of matches replaced.  \<^verbatim>\<open>re.sub\<close> is the same call and returns the text
  only.
\<close>

definition re_subn :: "string \<Rightarrow> string \<Rightarrow> string \<Rightarrow> re_error + string \<times> nat" where
  "re_subn pattern repl string =
     (case compile pattern of
        Inl err \<Rightarrow> Inl err
      | Inr (re, groups) \<Rightarrow>
          (case parse_template (tokenize repl) groups of
             Inl err \<Rightarrow> Inl err
           | Inr template \<Rightarrow> Inr (pattern_subx re template string False)))"

definition re_sub :: "string \<Rightarrow> string \<Rightarrow> string \<Rightarrow> re_error + string" where
  "re_sub pattern repl string =
     (case re_subn pattern repl string of Inl err \<Rightarrow> Inl err | Inr (out, n) \<Rightarrow> Inr out)"

section \<open>The script\<close>

text \<open>
  The rule set of the script: a dictionary from pattern to replacement, both written as
  raw strings.  A dictionary is traversed in the order in which its keys were inserted;
  the keys of this one are distinct, so \<^verbatim>\<open>replacements.items()\<close> is the list as
  written.
\<close>

definition replacements :: "(string \<times> string) list" where
  \<open>replacements = [
    (''<h3 className="text-lg font-semibold mb-2">Property Details</h3>'',
     ''<h3 className="text-lg font-semibold mb-2">{t('' @ [bsl, sq] @ ''propertyForm.propertyDetails'' @ [bsl, sq] @ '')}</h3>''),
    (''<p className="text-sm text-muted-foreground mb-4">Size, capacity, and room specifications</p>'',
     ''<p className="text-sm text-muted-foreground mb-4">{t('' @ [bsl, sq] @ ''propertyForm.propertyDetailsDesc'' @ [bsl, sq] @ '')}</p>''),
    (''<FormLabel>Size '' @ [bsl] @ ''(sq ft'' @ [bsl] @ '')</FormLabel>'',
     ''<FormLabel>{t('' @ [bsl, sq] @ ''propertyForm.sizeSqft'' @ [bsl, sq] @ '')}</FormLabel>''),
    (''<FormLabel>Capacity</FormLabel>'',
     ''<FormLabel>{t('' @ [bsl, sq] @ ''propertyForm.capacity'' @ [bsl, sq] @ '')}</FormLabel>''),
    (''<FormLabel>Max Capacity</FormLabel>'',
     ''<FormLabel>{t('' @ [bsl, sq] @ ''propertyForm.maxCapacity'' @ [bsl, sq] @ '')}</FormLabel>''),
    (''<FormLabel>Bedrooms</FormLabel>'',
     ''<FormLabel>{t('' @ [bsl, sq] @ ''propertyForm.bedrooms'' @ [bsl, sq] @ '')}</FormLabel>''),
    (''<FormLabel>Bathrooms</FormLabel>'',
     ''<FormLabel>{t('' @ [bsl, sq] @ ''propertyForm.bathrooms'' @ [bsl, sq] @ '')}</FormLabel>''),
    (''<FormLabel>Half Baths</FormLabel>'',
     ''<FormLabel>{t('' @ [bsl, sq] @ ''propertyForm.halfBaths'' @ [bsl, sq] @ '')}</FormLabel>''),
    (''<FormLabel>WCs</FormLabel>'',
     ''<FormLabel>{t('' @ [bsl, sq] @ ''propertyForm.wcs'' @ [bsl, sq] @ '')}</FormLabel>''),
    (''<FormLabel>Kitchens</FormLabel>'',
     ''<FormLabel>{t('' @ [bsl, sq] @ ''propertyForm.kitchens'' @ [bsl, sq] @ '')}</FormLabel>''),
    (''<FormLabel>Living Rooms</FormLabel>'',
     ''<FormLabel>{t('' @ [bsl, sq] @ ''propertyForm.livingRooms'' @ [bsl, sq] @ '')}</FormLabel>''),
    (''<h4 className="text-md font-semibold mb-2">Property Units</h4>'',
     ''<h4 className="text-md font-semibold mb-2">{t('' @ [bsl, sq] @ ''propertyForm.propertyUnits'' @ [bsl, sq] @ '')}</h4>''),
    (''<p className="text-sm text-muted-foreground mb-4">Manage individual units within this property '' @ [bsl] @ ''(optional'' @ [bsl] @ '')</p>'',
     ''<p className="text-sm text-muted-foreground mb-4">{t('' @ [bsl, sq] @ ''propertyForm.propertyUnitsDesc'' @ [bsl, sq] @ '')}</p>''),
    (''<p className="text-sm font-medium">'' @ [bsl] @ ''{units'' @ [bsl] @ ''.length'' @ [bsl] @ ''} '' @ [bsl] @ ''{units'' @ [bsl] @ ''.length === 1 '' @ [bsl] @ ''? '' @ [bsl, sq] @ ''unit'' @ [bsl, sq] @ '' : '' @ [bsl, sq] @ ''units'' @ [bsl, sq, bsl] @ ''} configured</p>'',
     ''<p className="text-sm font-medium">{t('' @ [bsl, sq] @ ''propertyForm.unitsConfigured'' @ [bsl, sq] @ '', { count: units.length })}</p>''),
    (''Add Unit'' @ [bsl] @ ''s*</Button>'',
     ''{t('' @ [bsl, sq] @ ''propertyForm.addUnit'' @ [bsl, sq] @ '')}'' @ [bsl] @ ''n                      </Button>''),
    (''placeholder="Property name"'',
     ''placeholder={t('' @ [bsl, sq] @ ''propertyForm.propertyNamePlaceholderUnit'' @ [bsl, sq] @ '')}''),
    (''placeholder="License number"'',
     ''placeholder={t('' @ [bsl, sq] @ ''propertyForm.licenseNumberPlaceholder'' @ [bsl, sq] @ '')}''),
    (''placeholder="Folio"'',
     ''placeholder={t('' @ [bsl, sq] @ ''propertyForm.folioPlaceholder'' @ [bsl, sq] @ '')}''),
    (''<h3 className="text-lg font-semibold mb-2">Communication Details</h3>'',
     ''<h3 className="text-lg font-semibold mb-2">{t('' @ [bsl, sq] @ ''propertyForm.communicationDetails'' @ [bsl, sq] @ '')}</h3>''),
    (''<p className="text-sm text-muted-foreground mb-4">Contact information and internet access details for this property</p>'',
     ''<p className="text-sm text-muted-foreground mb-4">{t('' @ [bsl, sq] @ ''propertyForm.communicationDetailsDesc'' @ [bsl, sq] @ '')}</p>''),
    (''<span>Contact Information</span>'',
     ''<span>{t('' @ [bsl, sq] @ ''propertyForm.contactInformation'' @ [bsl, sq] @ '')}</span>''),
    (''<label className="text-sm font-medium text-gray-700">Phone Number</label>'',
     ''<label className="text-sm font-medium text-gray-700">{t('' @ [bsl, sq] @ ''propertyForm.phoneNumber'' @ [bsl, sq] @ '')}</label>''),
    (''placeholder="'' @ [bsl] @ ''+1 '' @ [bsl] @ ''(555'' @ [bsl] @ '') 123-4567"'',
     ''placeholder={t('' @ [bsl, sq] @ ''propertyForm.phoneNumberPlaceholder'' @ [bsl, sq] @ '')}''),
    (''<label className="text-sm font-medium text-gray-700">WiFi Network Name</label>'',
     ''<label className="text-sm font-medium text-gray-700">{t('' @ [bsl, sq] @ ''propertyForm.wifiNetworkName'' @ [bsl, sq] @ '')}</label>''),
    (''placeholder="MyPropertyWiFi"'',
     ''placeholder={t('' @ [bsl, sq] @ ''propertyForm.wifiNamePlaceholder'' @ [bsl, sq] @ '')}''),
    (''<label className="text-sm font-medium text-gray-700">WiFi Password</label>'',
     ''<label className="text-sm font-medium text-gray-700">{t('' @ [bsl, sq] @ ''propertyForm.wifiPassword'' @ [bsl, sq] @ '')}</label>''),
    (''placeholder="Enter WiFi password"'',
     ''placeholder={t('' @ [bsl, sq] @ ''propertyForm.wifiPasswordPlaceholder'' @ [bsl, sq] @ '')}''),
    (''<h3 className="text-lg font-semibold mb-2">Access Information</h3>'',
     ''<h3 className="text-lg font-semibold mb-2">{t('' @ [bsl, sq] @ ''propertyForm.accessInformation'' @ [bsl, sq] @ '')}</h3>''),
    (''<p className="text-sm text-muted-foreground mb-4">Security codes and entry information for property access</p>'',
     ''<p className="text-sm text-muted-foreground mb-4">{t('' @ [bsl, sq] @ ''propertyForm.accessInformationDesc'' @ [bsl, sq] @ '')}</p>''),
    (''<span>Security Access</span>'',
     ''<span>{t('' @ [bsl, sq] @ ''propertyForm.securityAccess'' @ [bsl, sq] @ '')}</span>''),
    (''<label className="text-sm font-medium text-gray-700">Gate Code</label>'',
     ''<label className="text-sm font-medium text-gray-700">{t('' @ [bsl, sq] @ ''propertyForm.gateCode'' @ [bsl, sq] @ '')}</label>''),
    (''placeholder="1234#"'',
     ''placeholder={t('' @ [bsl, sq] @ ''propertyForm.gateCodePlaceholder'' @ [bsl, sq] @ '')}''),
    (''<label className="text-sm font-medium text-gray-700">Door Lock Password</label>'',
     ''<label className="text-sm font-medium text-gray-700">{t('' @ [bsl, sq] @ ''propertyForm.doorLockPassword'' @ [bsl, sq] @ '')}</label>''),
    (''placeholder="Enter lock code"'',
     ''placeholder={t('' @ [bsl, sq] @ ''propertyForm.doorLockPasswordPlaceholder'' @ [bsl, sq] @ '')}''),
    (''<label className="text-sm font-medium text-gray-700">Alarm Passcode</label>'',
     ''<label className="text-sm font-medium text-gray-700">{t('' @ [bsl, sq] @ ''propertyForm.alarmPasscode'' @ [bsl, sq] @ '')}</label>''),
    (''placeholder="Security alarm code"'',
     ''placeholder={t('' @ [bsl, sq] @ ''propertyForm.alarmPasscodePlaceholder'' @ [bsl, sq] @ '')}''),
    (''<span>Additional Property Features</span>'',
     ''<span>{t('' @ [bsl, sq] @ ''propertyForm.additionalPropertyFeatures'' @ [bsl, sq] @ '')}</span>''),
    (''<label className="text-sm font-medium text-gray-700">Storage Number</label>'',
     ''<label className="text-sm font-medium text-gray-700">{t('' @ [bsl, sq] @ ''propertyForm.storageNumber'' @ [bsl, sq] @ '')}</label>''),
    (''placeholder="Storage unit #"'',
     ''placeholder={t('' @ [bsl, sq] @ ''propertyForm.storageNumberPlaceholder'' @ [bsl, sq] @ '')}''),
    (''<label className="text-sm font-medium text-gray-700">Storage Code</label>'',
     ''<label className="text-sm font-medium text-gray-700">{t('' @ [bsl, sq] @ ''propertyForm.storageCode'' @ [bsl, sq] @ '')}</label>''),
    (''placeholder="Access code"'',
     ''placeholder={t('' @ [bsl, sq] @ ''propertyForm.storageCodePlaceholder'' @ [bsl, sq] @ '')}''),
    (''<label className="text-sm font-medium text-gray-700">Garage Number</label>'',
     ''<label className="text-sm font-medium text-gray-700">{t('' @ [bsl, sq] @ ''propertyForm.garageNumber'' @ [bsl, sq] @ '')}</label>''),
    (''placeholder="Parking spot #"'',
     ''placeholder={t('' @ [bsl, sq] @ ''propertyForm.garageNumberPlaceholder'' @ [bsl, sq] @ '')}''),
    (''<label className="text-sm font-medium text-gray-700">Front Desk</label>'',
     ''<label className="text-sm font-medium text-gray-700">{t('' @ [bsl, sq] @ ''propertyForm.frontDesk'' @ [bsl, sq] @ '')}</label>''),
    (''placeholder="Front desk info"'',
     ''placeholder={t('' @ [bsl, sq] @ ''propertyForm.frontDeskPlaceholder'' @ [bsl, sq] @ '')}''),
    (''<label className="text-sm font-medium text-gray-700">Mailing Box</label>'',
     ''<label className="text-sm font-medium text-gray-700">{t('' @ [bsl, sq] @ ''propertyForm.mailingBox'' @ [bsl, sq] @ '')}</label>''),
    (''placeholder="Mailbox number"'',
     ''placeholder={t('' @ [bsl, sq] @ ''propertyForm.mailingBoxPlaceholder'' @ [bsl, sq] @ '')}''),
    (''<label className="text-sm font-medium text-gray-700">Pool Access Code</label>'',
     ''<label className="text-sm font-medium text-gray-700">{t('' @ [bsl, sq] @ ''propertyForm.poolAccessCode'' @ [bsl, sq] @ '')}</label>''),
    (''placeholder="Pool code"'',
     ''placeholder={t('' @ [bsl, sq] @ ''propertyForm.poolAccessCodePlaceholder'' @ [bsl, sq] @ '')}''),
    (''<h4 className="text-lg font-semibold mb-2">Amenities</h4>'',
     ''<h4 className="text-lg font-semibold mb-2">{t('' @ [bsl, sq] @ ''propertyForm.amenities'' @ [bsl, sq] @ '')}</h4>''),
    (''<p className="text-sm text-muted-foreground mb-4">Select all amenities available at this property</p>'',
     ''<p className="text-sm text-muted-foreground mb-4">{t('' @ [bsl, sq] @ ''propertyForm.amenitiesDesc'' @ [bsl, sq] @ '')}</p>''),
    (''<h4 className="text-lg font-semibold mb-2">Rules</h4>'',
     ''<h4 className="text-lg font-semibold mb-2">{t('' @ [bsl, sq] @ ''propertyForm.rules'' @ [bsl, sq] @ '')}</h4>''),
    (''<p className="text-sm text-muted-foreground mb-4">Select all rules that apply to this property</p>'',
     ''<p className="text-sm text-muted-foreground mb-4">{t('' @ [bsl, sq] @ ''propertyForm.rulesDesc'' @ [bsl, sq] @ '')}</p>''),
    (''<h3 className="text-lg font-semibold mb-2">Property Profile Image</h3>'',
     ''<h3 className="text-lg font-semibold mb-2">{t('' @ [bsl, sq] @ ''propertyForm.propertyProfileImage'' @ [bsl, sq] @ '')}</h3>''),
    (''<p className="text-sm text-muted-foreground mb-4">Upload one profile image to represent this property</p>'',
     ''<p className="text-sm text-muted-foreground mb-4">{t('' @ [bsl, sq] @ ''propertyForm.propertyProfileImageDesc'' @ [bsl, sq] @ '')}</p>''),
    (''<label className="text-sm font-medium">Upload Profile Image</label>'',
     ''<label className="text-sm font-medium">{t('' @ [bsl, sq] @ ''propertyForm.uploadProfileImage'' @ [bsl, sq] @ '')}</label>''),
    (''Remove'' @ [bsl] @ ''s*</Button>'',
     ''{t('' @ [bsl, sq] @ ''propertyForm.remove'' @ [bsl, sq] @ '')}'' @ [bsl] @ ''n                          </Button>''),
    (''<label className="text-sm font-medium mb-1 block">Image Title '' @ [bsl] @ ''(Optional'' @ [bsl] @ '')</label>'',
     ''<label className="text-sm font-medium mb-1 block">{t('' @ [bsl, sq] @ ''propertyForm.imageTitleOptional'' @ [bsl, sq] @ '')}</label>''),
    (''placeholder="Enter image title or description"'',
     ''placeholder={t('' @ [bsl, sq] @ ''propertyForm.imageTitlePlaceholder'' @ [bsl, sq] @ '')}'')]\<close>

text \<open>
  The loop of the script:
  \<^verbatim>\<open>for pattern, replacement in replacements.items():
      content = re.sub(pattern, replacement, content)\<close>
  An exception of \<^verbatim>\<open>re.sub\<close> ends the run.
\<close>

fun apply_replacements :: "(string \<times> string) list \<Rightarrow> string \<Rightarrow> re_error + string" where
  "apply_replacements [] content = Inr content"
| "apply_replacements ((pattern, replacement) # rest) content =
     (case re_sub pattern replacement content of
        Inl err \<Rightarrow> Inl err
      | Inr content' \<Rightarrow> apply_replacements rest content')"

text \<open>
  The script keeps no record of what each rule did.  \<open>match_counts\<close> observes the same
  loop from outside: the number of matches each \<^verbatim>\<open>re.sub\<close> call replaces, which is
  the count \<^verbatim>\<open>re.subn\<close> returns for the same arguments.
\<close>

fun match_counts :: "(string \<times> string) list \<Rightarrow> string \<Rightarrow> re_error + nat list" where
  "match_counts [] content = Inr []"
| "match_counts ((pattern, replacement) # rest) content =
     (case re_subn pattern replacement content of
        Inl err \<Rightarrow> Inl err
      | Inr (content', n) \<Rightarrow>
          (case match_counts rest content' of
             Inl err \<Rightarrow> Inl err
           | Inr ns \<Rightarrow> Inr (n # ns)))"

text \<open>
  The whole script, for a rule set: it reads the file, runs the loop, writes the result
  back and prints \<^verbatim>\<open>Successfully updated {len(replacements)} translations\<close>.  The
  file is opened for writing only after the loop, so an exception leaves it as it was.
  The result is the content of the file after the run, and the error raised or the
  number printed.
\<close>

definition script :: "(string \<times> string) list \<Rightarrow> string \<Rightarrow> string \<times> (re_error + nat)" where
  "script rules file =
     (case apply_replacements rules file of
        Inl err \<Rightarrow> (file, Inl err)
      | Inr content \<Rightarrow> (content, Inr (length rules)))"

definition main :: "string \<Rightarrow> string \<times> (re_error + nat)" where
  "main file = script replacements file"



section \<open>Descriptions to compare with\<close>

text \<open>
  The rule set is written with each regular-expression metacharacter of a literal text
  behind a backslash.  \<open>literal_of\<close> reads a tokenized pattern that spells a literal
  text this way: ordinary characters, and characters other than letters and digits behind
  a backslash.  It is \<open>None\<close> for any other pattern.
\<close>

fun literal_of :: "token list \<Rightarrow> string option" where
  "literal_of [] = Some []"
| "literal_of (Chr c # ts) =
     (if c \<in> SPECIAL_CHARS then None else map_option ((#) c) (literal_of ts))"
| "literal_of (Esc c # ts) =
     (if c \<in> ASCIILETTERS \<or> c \<in> DIGITS then None else map_option ((#) c) (literal_of ts))"
| "literal_of (Lone # ts) = None"

text \<open>
  The escaping the specification describes for a matcher declared literal: a backslash
  before each of \<^verbatim>\<open>. * + ? ( ) [ ] { } ^ $ | \\<close>.  The script has no such step.
\<close>

definition METACHARACTERS :: "char set" where
  \<open>METACHARACTERS = set (''.*+?()[]{}^$|'' @ [bsl])\<close>

fun escape_literal :: "string \<Rightarrow> string" where
  "escape_literal [] = []"
| "escape_literal (c # cs) =
     (if c \<in> METACHARACTERS then bsl # c # escape_literal cs else c # escape_literal cs)"

text \<open>
  Exact-substring replacement, as the specification describes it: the occurrences of a
  non-empty literal text, left to right without overlap, each replaced by the same text,
  and their number.
\<close>

lemma take_self_length: "take (length lit) s = lit \<Longrightarrow> length lit \<le> length s"
proof -
  assume "take (length lit) s = lit"
  then have "length (take (length lit) s) = length lit" by simp
  then show ?thesis by (simp add: min_def split: if_splits)
qed

function replace_literal :: "string \<Rightarrow> string \<Rightarrow> string \<Rightarrow> string \<times> nat" where
  "replace_literal lit rep s =
     (if lit \<noteq> [] \<and> take (length lit) s = lit then
        (case replace_literal lit rep (drop (length lit) s) of
           (out, n) \<Rightarrow> (rep @ out, Suc n))
      else
        (case s of
           [] \<Rightarrow> ([], 0)
         | x # xs \<Rightarrow> (case replace_literal lit rep xs of (out, n) \<Rightarrow> (x # out, n))))"
  by pat_completeness auto
termination
proof (relation "measure (\<lambda>(lit, rep, s). length s)", goal_cases)
  case 1
  show ?case by simp
next
  case (2 lit rep s)
  then have "length lit \<le> length s" by (simp add: take_self_length)
  moreover from 2 obtain c l where "lit = c # l" by (cases lit) auto
  ultimately show ?case by simp
next
  case (3 lit rep s x xs)
  then show ?case by simp
qed

declare replace_literal.simps [simp del]

text \<open>
  The reading of a replacement string that claim C9 describes: backslash-n stands for a
  newline, and any other character, also a backslash before a quote, stands for itself.
\<close>

fun written_escapes :: "string \<Rightarrow> string" where
  "written_escapes [] = []"
| "written_escapes [c] = [c]"
| "written_escapes (c # d # cs) =
     (if c = bsl \<and> d = CHR ''n'' then newline # written_escapes cs
      else if c = bsl \<and> d = sq then bsl # sq # written_escapes cs
      else c # written_escapes (d # cs))"

text \<open>
  A replacement string written only with ordinary characters and the two escapes of the
  rule set: every backslash stands before an \<^verbatim>\<open>n\<close> or before a quote.
\<close>

fun plain_replacement :: "string \<Rightarrow> bool" where
  "plain_replacement [] = True"
| "plain_replacement [c] = (c \<noteq> bsl)"
| "plain_replacement (c # d # cs) =
     (if c = bsl then (d = CHR ''n'' \<or> d = sq) \<and> plain_replacement cs
      else plain_replacement (d # cs))"

text \<open>
  A rule finds nothing in a text when \<^verbatim>\<open>re.subn\<close> with the rule replaces no match
  there.  The condition on a rule set under which a second run changes nothing: no rule,
  applied to any text, leaves a match of its own pattern, or makes a match of the pattern
  of a rule listed before it in a text where that rule found nothing.
\<close>

definition finds_nothing :: "string \<times> string \<Rightarrow> string \<Rightarrow> bool" where
  "finds_nothing rule t \<longleftrightarrow> re_subn (fst rule) (snd rule) t = Inr (t, 0)"

definition creates_no_match :: "(string \<times> string) list \<Rightarrow> bool" where
  "creates_no_match rules \<longleftrightarrow>
     (\<forall>earlier rule later t out.
        rules = earlier @ rule # later \<longrightarrow> re_sub (fst rule) (snd rule) t = Inr out \<longrightarrow>
          finds_nothing rule out
          \<and> (\<forall>other \<in> set earlier. finds_nothing other t \<longrightarrow> finds_nothing other out))"

text \<open>
  A parsed pattern avoids a character when no match of it can consume that character:
  none of its literals is the character and none of its classes holds it.  \<open>extend\<close>
  puts back the text from that character on, which such a match never reaches.
\<close>

fun avoids :: "char \<Rightarrow> regex \<Rightarrow> bool" where
  "avoids a (Literal c) = (c \<noteq> a)"
| "avoids a AnyChar = (a = newline)"
| "avoids a (Category k) = (\<not> in_category k a)"
| "avoids a Empty = True"
| "avoids a (Seq p q) = (avoids a p \<and> avoids a q)"
| "avoids a (Branch p q) = (avoids a p \<and> avoids a q)"
| "avoids a (MaxRepeat k p) = avoids a p"
| "avoids a (Subpattern g p) = avoids a p"

abbreviation (input) extend :: "char \<Rightarrow> string \<Rightarrow> string \<times> captures \<Rightarrow> string \<times> captures" where
  "extend a t \<equiv> (\<lambda>(s', caps'). (s' @ a # t, caps'))"

section \<open>Properties of the loop\<close>

lemma re_sub_subn: "re_sub p r s = map_sum id fst (re_subn p r s)"
  by (simp add: re_sub_def split: sum.splits prod.splits)

lemma apply_replacements_append:
  "apply_replacements (rs1 @ rs2) content =
     (case apply_replacements rs1 content of
        Inl err \<Rightarrow> Inl err
      | Inr c \<Rightarrow> apply_replacements rs2 c)"
  by (induction rs1 arbitrary: content) (auto split: sum.splits)

lemma match_counts_append:
  "match_counts (rs1 @ rs2) content =
     (case match_counts rs1 content of
        Inl err \<Rightarrow> Inl err
      | Inr ns \<Rightarrow>
          (case apply_replacements rs1 content of
             Inl err \<Rightarrow> Inl err
           | Inr c \<Rightarrow>
               (case match_counts rs2 c of
                  Inl err \<Rightarrow> Inl err
                | Inr ms \<Rightarrow> Inr (ns @ ms))))"
  by (induction rs1 arbitrary: content) (auto simp: re_sub_def split: sum.splits prod.splits)

text \<open>
  C7.  For every source text, the loop over an empty rule set returns the text unchanged;
  no rule ran, so the list of match counts is empty, and the script writes the text back
  as it was.
\<close>

theorem empty_rule_set_unchanged:
  "apply_replacements [] content = Inr content \<and> match_counts [] content = Inr []
   \<and> script [] content = (content, Inr 0)"
  by (simp add: script_def)

text \<open>
  C1.  The rule of the script for \<^verbatim>\<open><FormLabel>Capacity</FormLabel>\<close> (the fourth of the
  rule set), applied to exactly that text, replaces one match, but the text it writes is
  \<^verbatim>\<open><FormLabel>{t(\'propertyForm.capacity\')}</FormLabel>\<close>, with a backslash before each
  quote, and not \<^verbatim>\<open><FormLabel>{t('propertyForm.capacity')}</FormLabel>\<close>: the replacement
  is a raw string, in which \<^verbatim>\<open>\'\<close> keeps its backslash, and the template keeps it too.
  The whole script writes the same text.
\<close>

theorem capacity_rule_keeps_backslashes:
  "replacements ! 3 =
     (''<FormLabel>Capacity</FormLabel>'',
      ''<FormLabel>{t('' @ [bsl, sq] @ ''propertyForm.capacity'' @ [bsl, sq] @ '')}</FormLabel>'')
   \<and> apply_replacements [replacements ! 3] ''<FormLabel>Capacity</FormLabel>'' =
       Inr (''<FormLabel>{t('' @ [bsl, sq] @ ''propertyForm.capacity'' @ [bsl, sq] @ '')}</FormLabel>'')
   \<and> apply_replacements [replacements ! 3] ''<FormLabel>Capacity</FormLabel>'' \<noteq>
       Inr (''<FormLabel>{t('' @ [sq] @ ''propertyForm.capacity'' @ [sq] @ '')}</FormLabel>'')
   \<and> match_counts [replacements ! 3] ''<FormLabel>Capacity</FormLabel>'' = Inr [1]
   \<and> main ''<FormLabel>Capacity</FormLabel>'' =
       (''<FormLabel>{t('' @ [bsl, sq] @ ''propertyForm.capacity'' @ [bsl, sq] @ '')}</FormLabel>'', Inr 59)"
  by code_simp

lemma apply_replacements_counts:
  "apply_replacements rules content = Inr out \<Longrightarrow>
     \<exists>ns. match_counts rules content = Inr ns \<and> length ns = length rules"
proof (induction rules arbitrary: content)
  case Nil
  then show ?case by simp
next
  case (Cons rule rules)
  obtain p r where rule: "rule = (p, r)" by (cases rule)
  from Cons.prems rule obtain c n where sub: "re_subn p r content = Inr (c, n)"
    and rest: "apply_replacements rules c = Inr out"
    by (auto simp: re_sub_def split: sum.splits prod.splits)
  from Cons.IH[OF rest] obtain ns where "match_counts rules c = Inr ns" "length ns = length rules"
    by blast
  with sub rule show ?case by simp
qed

text \<open>
  C2.  The claim is that the run returns a report with one match count per rule, so that
  a rule that matched nothing is visible.  The script returns no such thing: its outcome is
  the text and the size of the rule set.  The counterexample is a rule of the script on
  two texts, one it matches once and one already rewritten, with the same outcome and
  different counts.

  What holds: on every successful run each rule has a definite count, one per rule, zero
  included, but the outcome of the script is the transformed text and the number of rules
  only.
\<close>

theorem run_returns_text_only:
  "apply_replacements rules content = Inr out \<Longrightarrow>
     (\<exists>ns. match_counts rules content = Inr ns \<and> length ns = length rules)
     \<and> script rules content = (out, Inr (length rules))"
  using apply_replacements_counts[of rules content out] by (simp add: script_def)

theorem run_returns_text_only_witness:
  "apply_replacements [replacements ! 3] ''<p>Capacity</p>'' = Inr ''<p>Capacity</p>''
   \<and> match_counts [replacements ! 3] ''<p>Capacity</p>'' = Inr [0]
   \<and> script [replacements ! 3] ''<p>Capacity</p>'' = (''<p>Capacity</p>'', Inr 1)"
proof -
  have run: "apply_replacements [replacements ! 3] ''<p>Capacity</p>'' = Inr ''<p>Capacity</p>''"
    by code_simp
  have counts: "match_counts [replacements ! 3] ''<p>Capacity</p>'' = Inr [0]"
    by code_simp
  from run_returns_text_only[OF run]
  have "script [replacements ! 3] ''<p>Capacity</p>'' = (''<p>Capacity</p>'', Inr 1)"
    by simp
  with run counts show ?thesis by blast
qed

theorem counts_not_visible_counterexample:
  "script [replacements ! 3] ''<FormLabel>Capacity</FormLabel>'' =
     script [replacements ! 3]
       (''<FormLabel>{t('' @ [bsl, sq] @ ''propertyForm.capacity'' @ [bsl, sq] @ '')}</FormLabel>'')
   \<and> match_counts [replacements ! 3] ''<FormLabel>Capacity</FormLabel>'' = Inr [1]
   \<and> match_counts [replacements ! 3]
       (''<FormLabel>{t('' @ [bsl, sq] @ ''propertyForm.capacity'' @ [bsl, sq] @ '')}</FormLabel>'')
       = Inr [0]"
  by code_simp

lemma pattern_subx_zero: "pattern_subx re template s must_advance = (t, 0) \<Longrightarrow> t = s"
  by (subst (asm) pattern_subx.simps) (auto split: option.splits prod.splits)

lemma re_subn_zero: "re_subn p r s = Inr (t, 0) \<Longrightarrow> t = s"
  by (auto simp: re_subn_def split: sum.splits prod.splits dest: pattern_subx_zero)







section \<open>Properties of templates and patterns\<close>

lemma expand_template_literals: "expand_template (map TLiteral str) caps = str"
  by (induction str) auto


lemma template_backslash_n:
  "parse_template (tokenize (bsl # CHR ''n'' # rest)) groups =
     (if tokenize rest = [Lone] then Inl BadEscapeEnd
      else add_items [TLiteral newline] (parse_template (tokenize rest) groups))"
  by (simp add: template_escape_def DIGITS_def)

lemma template_backslash_quote:
  "parse_template (tokenize (bsl # sq # rest)) groups =
     (if tokenize rest = [Lone] then Inl BadEscapeEnd
      else add_items [TLiteral bsl, TLiteral sq] (parse_template (tokenize rest) groups))"
  by (simp add: template_escape_def DIGITS_def ASCIILETTERS_def)

lemma literal_of_not_lone: "literal_of ts = Some lit \<Longrightarrow> ts \<noteq> [Lone]"
  by auto

lemma parse_item_literal_chr:
  "c \<notin> SPECIAL_CHARS \<Longrightarrow> next \<noteq> [Lone] \<Longrightarrow>
     parse_item (Chr c) next (groups, stack, alts, items) = Inr (groups, stack, alts, Literal c # items)"
  by (auto simp: parse_item_def SPECIAL_CHARS_def)

lemma parse_item_literal_esc:
  "c \<notin> ASCIILETTERS \<Longrightarrow> c \<notin> DIGITS \<Longrightarrow> next \<noteq> [Lone] \<Longrightarrow>
     parse_item (Esc c) next (groups, stack, alts, items) = Inr (groups, stack, alts, Literal c # items)"
  by (auto simp: parse_item_def escape_def ASCIILETTERS_def DIGITS_def)

lemma parse_literal:
  "literal_of ts = Some lit \<Longrightarrow>
     parse ts (groups, stack, alts, items) = parse [] (groups, stack, alts, rev (map Literal lit) @ items)"
proof (induction ts arbitrary: lit items rule: literal_of.induct)
  case 1
  then show ?case by simp
next
  case (2 c ts)
  from "2.prems" obtain l where c: "c \<notin> SPECIAL_CHARS" and l: "literal_of ts = Some l" and lit: "lit = c # l"
    by (auto split: if_splits)
  from "2.IH"[OF c l, of "Literal c # items"] parse_item_literal_chr[OF c literal_of_not_lone[OF l]] lit
  show ?case by simp
next
  case (3 c ts)
  from "3.prems" obtain l where c: "\<not> (c \<in> ASCIILETTERS \<or> c \<in> DIGITS)" and l: "literal_of ts = Some l" and lit: "lit = c # l"
    by (auto split: if_splits)
  from c have c1: "c \<notin> ASCIILETTERS" and c2: "c \<notin> DIGITS" by auto
  from "3.IH"[OF c l, of "Literal c # items"] parse_item_literal_esc[OF c1 c2 literal_of_not_lone[OF l]] lit
  show ?case by simp
next
  case (4 ts)
  then show ?case by simp
qed

lemma compile_literal:
  "literal_of (tokenize pattern) = Some lit \<Longrightarrow> compile pattern = Inr (seq_of (map Literal lit), 0)"
  by (simp add: compile_def parse_literal close_sub_def)

lemma sre_match_literal:
  "sre_match (seq_of (map Literal lit)) s caps =
     (if take (length lit) s = lit then [(drop (length lit) s, caps)] else [])"
proof (induction lit arbitrary: s)
  case Nil
  show ?case by (simp add: sre_match.simps)
next
  case (Cons c lit)
  show ?case
  proof (cases s)
    case Nil
    then show ?thesis by (simp add: sre_match.simps)
  next
    case (Cons x xs)
    with Cons.IH[of xs] show ?thesis by (simp add: sre_match.simps)
  qed
qed

lemma sre_search_hit:
  "sre_match re s [] = (s', caps) # others \<Longrightarrow>
     sre_search re s False = Some ([], take (length s - length s') s, s', caps)"
  by (subst sre_search.simps) simp

lemma sre_search_miss:
  "sre_match re (x # xs) [] = [] \<Longrightarrow>
     sre_search re (x # xs) False =
       map_option (\<lambda>(skipped, matched, rest, caps). (x # skipped, matched, rest, caps))
         (sre_search re xs False)"
  by (subst sre_search.simps) simp

lemma pattern_subx_miss:
  assumes "sre_match re (x # xs) [] = []"
  shows "pattern_subx re template (x # xs) False =
           (case pattern_subx re template xs False of (out, n) \<Rightarrow> (x # out, n))"
  by (subst pattern_subx.simps, subst (2) pattern_subx.simps)
     (simp add: sre_search_miss[OF assms] split: option.splits prod.splits)

lemma pattern_subx_literal:
  assumes "lit \<noteq> []" and "rep = expand_template template []"
  shows "pattern_subx (seq_of (map Literal lit)) template s False = replace_literal lit rep s"
  using assms
proof (induction lit rep s rule: replace_literal.induct)
  case (1 lit rep s)
  note nonempty = "1.prems"(1) and rep = "1.prems"(2)
  show ?case
  proof (cases "take (length lit) s = lit")
    case True
    with nonempty have pre: "lit \<noteq> [] \<and> take (length lit) s = lit" by simp
    from True have m: "sre_match (seq_of (map Literal lit)) s [] = (drop (length lit) s, []) # []"
      by (simp add: sre_match_literal)
    from True have len: "length lit \<le> length s" by (rule take_self_length)
    with True have tk: "take (length s - length (drop (length lit) s)) s = lit" by simp
    from sre_search_hit[OF m] tk
    have found: "sre_search (seq_of (map Literal lit)) s False = Some ([], lit, drop (length lit) s, [])"
      by simp
    from "1.IH"(1)[OF pre nonempty rep] pre nonempty rep show ?thesis
      by (subst pattern_subx.simps, subst replace_literal.simps) (simp add: found)
  next
    case False
    then have npre: "\<not> (lit \<noteq> [] \<and> take (length lit) s = lit)" by simp
    show ?thesis
    proof (cases s)
      case Nil
      with False have "sre_search (seq_of (map Literal lit)) [] False = None"
        by (subst sre_search.simps) (simp add: sre_match_literal)
      with Nil False show ?thesis
        by (subst pattern_subx.simps, subst replace_literal.simps) simp
    next
      case (Cons x xs)
      with False have miss: "sre_match (seq_of (map Literal lit)) (x # xs) [] = []"
        by (simp add: sre_match_literal)
      from "1.IH"(2)[OF npre Cons nonempty rep]
      have ih: "pattern_subx (seq_of (map Literal lit)) template xs False = replace_literal lit rep xs" .
      from False Cons have nf: "take (length lit) (x # xs) \<noteq> lit" by simp
      show ?thesis
        unfolding Cons
        by (subst pattern_subx_miss[OF miss], subst replace_literal.simps) (simp add: ih nf)
    qed
  qed
qed

lemma tokenize_ordinary: "c \<noteq> bsl \<Longrightarrow> tokenize (c # rest) = Chr c # tokenize rest"
  by (cases rest) simp_all

lemma literal_of_escape_literal: "literal_of (tokenize (escape_literal lit)) = Some lit"
proof (induction lit)
  case Nil
  show ?case by simp
next
  case (Cons c lit)
  show ?case
  proof (cases "c \<in> METACHARACTERS")
    case True
    then have "c \<notin> ASCIILETTERS" and "c \<notin> DIGITS"
      by (auto simp: METACHARACTERS_def ASCIILETTERS_def DIGITS_def)
    with True Cons show ?thesis by simp
  next
    case False
    then have "c \<noteq> bsl" and "c \<notin> SPECIAL_CHARS"
      by (auto simp: METACHARACTERS_def SPECIAL_CHARS_def)
    with False Cons show ?thesis by (simp add: tokenize_ordinary)
  qed
qed

lemma re_subn_literal:
  assumes "literal_of (tokenize pattern) = Some lit" and "lit \<noteq> []"
    and "parse_template (tokenize repl) 0 = Inr template"
  shows "re_subn pattern repl s = Inr (replace_literal lit (expand_template template []) s)"
  unfolding re_subn_def
  by (simp add: compile_literal[OF assms(1)] assms(3) pattern_subx_literal[OF assms(2) refl])

lemma literal_rules:
  "filter (\<lambda>(pattern, replacement). literal_of (tokenize pattern) = None) replacements
     = [replacements ! 14, replacements ! 56]"
  by code_simp

text \<open>
  C4.  The claim is that a matcher declared literal has its metacharacters escaped before
  it is compiled.  The script declares nothing and escapes nothing: a pattern is compiled
  as written.  In the counterexample the text \<^verbatim>\<open>Size (sq ft)\<close> used as a pattern does
  not match itself and matches \<^verbatim>\<open>Size sq ft\<close>.

  What holds: a pattern that spells a non-empty literal text with its metacharacters
  behind backslashes, in particular the escaped form the specification describes, is
  replaced exactly as the literal text would be; and every pattern of the rule set but
  the two with \<^verbatim>\<open>\s*\<close> is written in this way.
\<close>

theorem escaped_pattern_matches_literally:
  assumes "literal_of (tokenize pattern) = Some lit" and "lit \<noteq> []"
    and "parse_template (tokenize repl) 0 = Inr template"
  shows "re_subn pattern repl s = Inr (replace_literal lit (expand_template template []) s)
         \<and> re_subn (escape_literal lit) repl s
             = Inr (replace_literal lit (expand_template template []) s)
         \<and> filter (\<lambda>(pattern, replacement). literal_of (tokenize pattern) = None) replacements
             = [replacements ! 14, replacements ! 56]"
  using re_subn_literal[OF assms] re_subn_literal[OF literal_of_escape_literal assms(2,3)]
    literal_rules
  by blast

theorem escaped_pattern_matches_literally_witness:
  "literal_of (tokenize (fst (replacements ! 2))) = Some ''<FormLabel>Size (sq ft)</FormLabel>''
   \<and> ''<FormLabel>Size (sq ft)</FormLabel>'' \<noteq> []
   \<and> parse_template (tokenize ''[sq ft]'') 0 = Inr (map TLiteral ''[sq ft]'')
   \<and> re_subn (fst (replacements ! 2)) ''[sq ft]'' ''a <FormLabel>Size (sq ft)</FormLabel> b''
       = Inr (replace_literal ''<FormLabel>Size (sq ft)</FormLabel>'' ''[sq ft]''
                ''a <FormLabel>Size (sq ft)</FormLabel> b'')
   \<and> replace_literal ''<FormLabel>Size (sq ft)</FormLabel>'' ''[sq ft]''
         ''a <FormLabel>Size (sq ft)</FormLabel> b'' = (''a [sq ft] b'', 1)"
proof -
  have l: "literal_of (tokenize (fst (replacements ! 2))) = Some ''<FormLabel>Size (sq ft)</FormLabel>''"
    by code_simp
  have n: "''<FormLabel>Size (sq ft)</FormLabel>'' \<noteq> []" by simp
  have t: "parse_template (tokenize ''[sq ft]'') 0 = Inr (map TLiteral ''[sq ft]'')"
    by code_simp
  have e: "expand_template (map TLiteral ''[sq ft]'') [] = ''[sq ft]''" by code_simp
  have r: "replace_literal ''<FormLabel>Size (sq ft)</FormLabel>'' ''[sq ft]''
         ''a <FormLabel>Size (sq ft)</FormLabel> b'' = (''a [sq ft] b'', 1)"
    by code_simp
  from escaped_pattern_matches_literally[OF l n t, of "''a <FormLabel>Size (sq ft)</FormLabel> b''"]
  have "re_subn (fst (replacements ! 2)) ''[sq ft]'' ''a <FormLabel>Size (sq ft)</FormLabel> b''
       = Inr (replace_literal ''<FormLabel>Size (sq ft)</FormLabel>'' ''[sq ft]''
                ''a <FormLabel>Size (sq ft)</FormLabel> b'')"
    unfolding e by blast
  with l n t r show ?thesis by blast
qed

theorem pattern_not_escaped_counterexample:
  "re_subn ''Size (sq ft)'' ''X'' ''Size (sq ft)'' = Inr (''Size (sq ft)'', 0)
   \<and> re_subn ''Size (sq ft)'' ''X'' ''Size sq ft'' = Inr (''X'', 1)
   \<and> replace_literal ''Size (sq ft)'' ''X'' ''Size (sq ft)'' = (''X'', 1)
   \<and> replace_literal ''Size (sq ft)'' ''X'' ''Size sq ft'' = (''Size sq ft'', 0)
   \<and> re_subn (escape_literal ''Size (sq ft)'') ''X'' ''Size (sq ft)'' = Inr (''X'', 1)"
  by code_simp

section \<open>Rules that fail\<close>


section \<open>The order of the rules\<close>

lemma replace_literal_self: "lit \<noteq> [] \<Longrightarrow> replace_literal lit rep lit = (rep, 1)"
  by (subst replace_literal.simps, subst replace_literal.simps) auto
lemma replace_literal_absent: "\<not> sublist lit s \<Longrightarrow> replace_literal lit rep s = (s, 0)"
proof (induction s)
  case Nil
  then show ?case by (subst replace_literal.simps) auto
next
  case (Cons x xs)
  from Cons.prems have "take (length lit) (x # xs) \<noteq> lit"
    by (metis append_take_drop_id sublist_appendI append_Nil sublist_def)
  moreover from Cons.prems have "\<not> sublist lit xs" by (auto simp: sublist_Cons_right)
  ultimately show ?case using Cons.IH by (subst replace_literal.simps) simp
qed
text \<open>
  C3.  The claim is that rules run in listed order, each on the text the rules before it
  produced, and that therefore, when the match of rule 1 consumes the region rule 2
  targets, the run reports count 1 for rule 1 and count 0 for rule 2.  The run reports no
  counts, and rule 2 can still find a match: in the counterexample below rule 1 replaces
  the whole text \<^verbatim>\<open>abc\<close>, which holds the target \<^verbatim>\<open>b\<close> of rule 2, by \<^verbatim>\<open>xbx\<close>, and rule
  2 then replaces the \<^verbatim>\<open>b\<close> that rule 1 wrote.

  What holds: a rule set followed by one more rule gives what that rule gives on the
  text the rule set produced.  For two rules with literal patterns and any text, the run
  replaces the occurrences of the second literal in the text in which the occurrences of
  the first have been replaced.  When the text is exactly the literal of rule 1, and the
  literal of rule 2 lies inside it and does not occur in the replacement text of rule 1,
  the run gives the replacement text of rule 1: rule 1 replaced its one match and rule 2
  found nothing to replace; the outcome of the script is that text and the number of
  rules.  The two orders of a rule of the script and a rule for the word inside its
  pattern give different texts.
\<close>

theorem later_rule_scans_rewritten_text:
  assumes "literal_of (tokenize pattern1) = Some lit1" and "lit1 \<noteq> []"
    and "parse_template (tokenize replacement1) 0 = Inr template1"
    and "literal_of (tokenize pattern2) = Some lit2" and "lit2 \<noteq> []"
    and "parse_template (tokenize replacement2) 0 = Inr template2"
    and "sublist lit2 lit1"
    and "\<not> sublist lit2 (expand_template template1 [])"
  shows "apply_replacements (rules @ [(pattern, replacement)]) content =
           (case apply_replacements rules content of
              Inl err \<Rightarrow> Inl err
            | Inr content' \<Rightarrow> re_sub pattern replacement content')
         \<and> apply_replacements [(pattern1, replacement1), (pattern2, replacement2)] content
             = Inr (fst (replace_literal lit2 (expand_template template2 [])
                      (fst (replace_literal lit1 (expand_template template1 []) content))))
         \<and> apply_replacements [(pattern1, replacement1)] lit1 = Inr (expand_template template1 [])
         \<and> apply_replacements [(pattern1, replacement1), (pattern2, replacement2)] lit1
             = Inr (expand_template template1 [])
         \<and> script [(pattern1, replacement1), (pattern2, replacement2)] lit1
             = (expand_template template1 [], Inr 2)
         \<and> match_counts [(pattern1, replacement1), (pattern2, replacement2)] lit1 = Inr [1, 0]
         \<and> apply_replacements [replacements ! 3, (''Capacity'', ''Cap'')] ''<FormLabel>Capacity</FormLabel>''
             \<noteq> apply_replacements [(''Capacity'', ''Cap''), replacements ! 3] ''<FormLabel>Capacity</FormLabel>''"
proof -
  have law: "apply_replacements (rules @ [(pattern, replacement)]) content =
           (case apply_replacements rules content of
              Inl err \<Rightarrow> Inl err
            | Inr content' \<Rightarrow> re_sub pattern replacement content')"
    by (simp add: apply_replacements_append split: sum.splits)
  have both: "apply_replacements [(pattern1, replacement1), (pattern2, replacement2)] content
             = Inr (fst (replace_literal lit2 (expand_template template2 [])
                      (fst (replace_literal lit1 (expand_template template1 []) content))))"
    by (simp add: re_sub_def re_subn_literal[OF assms(1,2,3)] re_subn_literal[OF assms(4,5,6)]
          split: prod.splits)
  have one: "re_subn pattern1 replacement1 lit1 = Inr (expand_template template1 [], 1)"
    by (simp add: re_subn_literal[OF assms(1,2,3)] replace_literal_self[OF assms(2)])
  have two: "re_subn pattern2 replacement2 (expand_template template1 [])
               = Inr (expand_template template1 [], 0)"
    by (simp add: re_subn_literal[OF assms(4,5,6)] replace_literal_absent[OF assms(8)])
  have order: "apply_replacements [replacements ! 3, (''Capacity'', ''Cap'')] ''<FormLabel>Capacity</FormLabel>''
             \<noteq> apply_replacements [(''Capacity'', ''Cap''), replacements ! 3] ''<FormLabel>Capacity</FormLabel>''"
    by code_simp
  from one two have "apply_replacements [(pattern1, replacement1)] lit1 = Inr (expand_template template1 [])"
    and "apply_replacements [(pattern1, replacement1), (pattern2, replacement2)] lit1
             = Inr (expand_template template1 [])"
    and "script [(pattern1, replacement1), (pattern2, replacement2)] lit1
             = (expand_template template1 [], Inr 2)"
    and "match_counts [(pattern1, replacement1), (pattern2, replacement2)] lit1 = Inr [1, 0]"
    by (simp_all add: re_sub_def script_def)
  with law both order show ?thesis by blast
qed
theorem later_rule_scans_rewritten_text_witness:
  "literal_of (tokenize (fst (replacements ! 3))) = Some ''<FormLabel>Capacity</FormLabel>''
   \<and> parse_template (tokenize (snd (replacements ! 3))) 0
       = Inr (map TLiteral (snd (replacements ! 3)))
   \<and> literal_of (tokenize ''Capacity'') = Some ''Capacity''
   \<and> parse_template (tokenize ''Cap'') 0 = Inr (map TLiteral ''Cap'')
   \<and> sublist ''Capacity'' ''<FormLabel>Capacity</FormLabel>''
   \<and> \<not> sublist ''Capacity'' (snd (replacements ! 3))
   \<and> apply_replacements [replacements ! 3, (''Capacity'', ''Cap'')] ''<FormLabel>Capacity</FormLabel>''
       = Inr (snd (replacements ! 3))
   \<and> script [replacements ! 3, (''Capacity'', ''Cap'')] ''<FormLabel>Capacity</FormLabel>''
       = (snd (replacements ! 3), Inr 2)
   \<and> apply_replacements [(''Capacity'', ''Cap''), replacements ! 3] ''<FormLabel>Capacity</FormLabel>''
       = Inr ''<FormLabel>Cap</FormLabel>''"
proof -
  have l1: "literal_of (tokenize (fst (replacements ! 3))) = Some ''<FormLabel>Capacity</FormLabel>''"
    by code_simp
  have n1: "''<FormLabel>Capacity</FormLabel>'' \<noteq> []" by simp
  have t1: "parse_template (tokenize (snd (replacements ! 3))) 0
       = Inr (map TLiteral (snd (replacements ! 3)))" by code_simp
  have l2: "literal_of (tokenize ''Capacity'') = Some ''Capacity''" by code_simp
  have n2: "''Capacity'' \<noteq> []" by simp
  have t2: "parse_template (tokenize ''Cap'') 0 = Inr (map TLiteral ''Cap'')" by code_simp
  have s1: "sublist ''Capacity'' ''<FormLabel>Capacity</FormLabel>''" by code_simp
  have s2: "\<not> sublist ''Capacity'' (snd (replacements ! 3))" by code_simp
  then have s2': "\<not> sublist ''Capacity'' (expand_template (map TLiteral (snd (replacements ! 3))) [])"
    by (simp add: expand_template_literals)
  have o: "apply_replacements [(''Capacity'', ''Cap''), replacements ! 3] ''<FormLabel>Capacity</FormLabel>''
       = Inr ''<FormLabel>Cap</FormLabel>''" by code_simp
  have p: "(fst (replacements ! 3), snd (replacements ! 3)) = replacements ! 3" by simp
  from later_rule_scans_rewritten_text[OF l1 n1 t1 l2 n2 t2 s1 s2', unfolded expand_template_literals p]
  have "apply_replacements [replacements ! 3, (''Capacity'', ''Cap'')] ''<FormLabel>Capacity</FormLabel>''
       = Inr (snd (replacements ! 3))
   \<and> script [replacements ! 3, (''Capacity'', ''Cap'')] ''<FormLabel>Capacity</FormLabel>''
       = (snd (replacements ! 3), Inr 2)"
    by blast
  with l1 t1 l2 t2 s1 s2 o show ?thesis by blast
qed
theorem consumed_region_counterexample:
  "literal_of (tokenize ''abc'') = Some ''abc'' \<and> literal_of (tokenize ''b'') = Some ''b''
   \<and> sublist ''b'' ''abc''
   \<and> apply_replacements [(''abc'', ''xbx'')] ''abc'' = Inr ''xbx''
   \<and> apply_replacements [(''abc'', ''xbx''), (''b'', ''y'')] ''abc'' = Inr ''xyx''
   \<and> match_counts [(''abc'', ''xbx''), (''b'', ''y'')] ''abc'' = Inr [1, 1]"
  by code_simp
section \<open>A second run\<close>

lemma first_run_leaves_no_match:
  assumes stable: "creates_no_match rules"
  shows "rules = earlier @ rs \<Longrightarrow> \<forall>rule \<in> set earlier. finds_nothing rule t \<Longrightarrow>
         apply_replacements rs t = Inr out \<Longrightarrow> \<forall>rule \<in> set rules. finds_nothing rule out"
proof (induction rs arbitrary: t earlier)
  case Nil
  then show ?case by simp
next
  case (Cons rule rs)
  from Cons.prems(3) obtain t1 where sub: "re_sub (fst rule) (snd rule) t = Inr t1"
    and rest: "apply_replacements rs t1 = Inr out"
    by (cases rule) (auto split: sum.splits)
  from stable Cons.prems(1) sub
  have own: "finds_nothing rule t1"
    and others: "\<forall>other \<in> set earlier. finds_nothing other t \<longrightarrow> finds_nothing other t1"
    unfolding creates_no_match_def by blast+
  from own others Cons.prems(2) have quiet: "\<forall>x \<in> set (earlier @ [rule]). finds_nothing x t1"
    by auto
  from Cons.prems(1) have split: "rules = (earlier @ [rule]) @ rs" by simp
  from Cons.IH[OF split quiet rest] show ?case .
qed
lemma quiet_run:
  "\<forall>rule \<in> set rules. finds_nothing rule out \<Longrightarrow>
     apply_replacements rules out = Inr out
     \<and> match_counts rules out = Inr (replicate (length rules) 0)"
proof (induction rules)
  case Nil
  then show ?case by simp
next
  case (Cons rule rules)
  obtain p r where rule: "rule = (p, r)" by (cases rule)
  with Cons.prems have sub: "re_subn p r out = Inr (out, 0)" by (simp add: finds_nothing_def)
  from Cons.IH Cons.prems have "apply_replacements rules out = Inr out"
    and "match_counts rules out = Inr (replicate (length rules) 0)" by auto
  with sub rule show ?case by (simp add: re_sub_def)
qed
text \<open>
  C6.  The claim is that a second run changes nothing when no rule's pattern matches its
  own replacement.  That is not enough: in the counterexample below neither pattern
  matches its own replacement, but the second rule writes an \<^verbatim>\<open>a\<close> that completes a
  match of the first, so that the second run rewrites the result of the first.

  What holds: when no rule, applied to any text, leaves a match of its own pattern or
  makes a match of the pattern of a rule listed before it where there was none, then the
  text a run produces is left unchanged by a second run, no rule finds a match in the
  second run, and the second run of the script has the outcome of the first.
\<close>

theorem stable_rule_set_idempotent:
  assumes "creates_no_match rules" and "apply_replacements rules content = Inr out"
  shows "apply_replacements rules out = Inr out
         \<and> match_counts rules out = Inr (replicate (length rules) 0)
         \<and> script rules out = script rules content"
proof -
  have "\<forall>rule \<in> set rules. finds_nothing rule out"
    using first_run_leaves_no_match[OF assms(1), of "[]" rules content out] assms(2) by simp
  from quiet_run[OF this] assms(2) show ?thesis by (simp add: script_def)
qed
theorem own_replacement_not_enough_counterexample:
  "match_counts [(''ab'', ''x'')] ''x'' = Inr [0]
   \<and> match_counts [(''c'', ''a'')] ''a'' = Inr [0]
   \<and> apply_replacements [(''ab'', ''x''), (''c'', ''a'')] ''cb'' = Inr ''ab''
   \<and> apply_replacements [(''ab'', ''x''), (''c'', ''a'')] ''ab'' = Inr ''x''
   \<and> match_counts [(''ab'', ''x''), (''c'', ''a'')] ''ab'' = Inr [1, 0]"
  by code_simp
text \<open>Rules for single letters, where the condition can be read off the letters.\<close>

lemma replace_literal_single:
  "replace_literal [c] rep t = (concat (map (\<lambda>x. if x = c then rep else [x]) t), count_list t c)"
proof (induction t)
  case Nil
  show ?case by (subst replace_literal.simps) simp
next
  case (Cons x t)
  show ?case
    by (subst replace_literal.simps) (simp add: Cons)
qed
lemma re_subn_single:
  assumes "c \<notin> SPECIAL_CHARS" and "parse_template (tokenize r) 0 = Inr (map TLiteral rep)"
  shows "re_subn [c] r t = Inr (concat (map (\<lambda>x. if x = c then rep else [x]) t), count_list t c)"
proof -
  from assms(1) have "c \<noteq> bsl" by (auto simp: SPECIAL_CHARS_def)
  with assms(1) have lit: "literal_of (tokenize [c]) = Some [c]" by simp
  have ne: "[c] \<noteq> []" by simp
  from re_subn_literal[OF lit ne assms(2)] show ?thesis
    by (simp add: expand_template_literals replace_literal_single)
qed
lemma finds_nothing_single:
  assumes "c \<notin> SPECIAL_CHARS" and "parse_template (tokenize r) 0 = Inr (map TLiteral rep)"
  shows "finds_nothing ([c], r) t \<longleftrightarrow> c \<notin> set t"
proof
  assume "finds_nothing ([c], r) t"
  then have "count_list t c = 0" by (simp add: finds_nothing_def re_subn_single[OF assms])
  then show "c \<notin> set t" by (simp add: count_list_0_iff)
next
  assume c: "c \<notin> set t"
  then have "concat (map (\<lambda>x. if x = c then rep else [x]) t) = t"
    by (induction t) auto
  with c show "finds_nothing ([c], r) t"
    by (simp add: finds_nothing_def re_subn_single[OF assms] count_list_0_iff)
qed
lemma re_sub_single_chars:
  assumes "c \<notin> SPECIAL_CHARS" and "parse_template (tokenize r) 0 = Inr (map TLiteral rep)"
    and "re_sub [c] r t = Inr out"
  shows "set out \<subseteq> (set t - {c}) \<union> set rep"
proof -
  from assms(3) have "out = concat (map (\<lambda>x. if x = c then rep else [x]) t)"
    by (simp add: re_sub_def re_subn_single[OF assms(1,2)])
  then show ?thesis by auto
qed
lemma two_letters_create_no_match: "creates_no_match [(''a'', ''b''), (''c'', ''d'')]"
proof -
  have a: "CHR ''a'' \<notin> SPECIAL_CHARS" and c: "CHR ''c'' \<notin> SPECIAL_CHARS"
    by (simp_all add: SPECIAL_CHARS_def)
  have tb: "parse_template (tokenize ''b'') 0 = Inr (map TLiteral ''b'')"
    and td: "parse_template (tokenize ''d'') 0 = Inr (map TLiteral ''d'')"
    by (simp_all add: add_items_def)
  note fa = finds_nothing_single[OF a tb] and fc = finds_nothing_single[OF c td]
  have ra: "re_sub ''a'' ''b'' t = Inr out \<Longrightarrow> set out \<subseteq> (set t - {CHR ''a''}) \<union> set ''b''" for t out
    by (rule re_sub_single_chars[OF a tb])
  have rc: "re_sub ''c'' ''d'' t = Inr out \<Longrightarrow> set out \<subseteq> (set t - {CHR ''c''}) \<union> set ''d''" for t out
    by (rule re_sub_single_chars[OF c td])
  show ?thesis
    unfolding creates_no_match_def
  proof (intro allI impI)
    fix earlier rule later t out
    assume split: "[(''a'', ''b''), (''c'', ''d'')] = earlier @ rule # later"
      and sub: "re_sub (fst rule) (snd rule) t = Inr out"
    from split consider "earlier = []" "rule = (''a'', ''b'')"
      | "earlier = [(''a'', ''b'')]" "rule = (''c'', ''d'')"
      by (auto simp: Cons_eq_append_conv)
    then show "finds_nothing rule out
          \<and> (\<forall>other \<in> set earlier. finds_nothing other t \<longrightarrow> finds_nothing other out)"
    proof cases
      case 1
      with sub ra[of t out] show ?thesis by (auto simp: fa)
    next
      case 2
      with sub rc[of t out] show ?thesis by (auto simp: fa fc)
    qed
  qed
qed
theorem stable_rule_set_idempotent_witness:
  "creates_no_match [(''a'', ''b''), (''c'', ''d'')]
   \<and> apply_replacements [(''a'', ''b''), (''c'', ''d'')] ''a cab'' = Inr ''b dbb''
   \<and> apply_replacements [(''a'', ''b''), (''c'', ''d'')] ''b dbb'' = Inr ''b dbb''
   \<and> match_counts [(''a'', ''b''), (''c'', ''d'')] ''b dbb'' = Inr [0, 0]
   \<and> script [(''a'', ''b''), (''c'', ''d'')] ''b dbb'' = script [(''a'', ''b''), (''c'', ''d'')] ''a cab''"
proof -
  have run: "apply_replacements [(''a'', ''b''), (''c'', ''d'')] ''a cab'' = Inr ''b dbb''"
    by code_simp
  from stable_rule_set_idempotent[OF two_letters_create_no_match run] run
    two_letters_create_no_match
  show ?thesis by (simp add: numeral_2_eq_2)
qed
section \<open>Matches that cannot reach a character\<close>

text \<open>
  A pattern that avoids a character matches in the text before that character as if the
  text ended there.
\<close>

lemma sre_match_length:
  "(s', caps') \<in> set (sre_match re s caps) \<Longrightarrow> length s' \<le> length s"
  by (auto dest: sre_match_suffix)
lemma concat_map_extend:
  assumes "\<And>s1 c1. (s1, c1) \<in> set xs \<Longrightarrow> f (s1 @ a # t, c1) = map (extend a t) (g (s1, c1))"
  shows "concat (map f (map (extend a t) xs)) = map (extend a t) (concat (map g xs))"
  using assms by (induction xs) (auto simp: case_prod_unfold)
lemma sre_match_avoids:
  "avoids a re \<Longrightarrow>
     sre_match re (s @ a # t) caps = map (extend a t) (sre_match re s caps)"
proof (induction re s caps rule: sre_match.induct)
  case (1 c s caps) then show ?case by (cases s) (auto simp: sre_match.simps)
next
  case (2 s caps) then show ?case by (cases s) (auto simp: sre_match.simps)
next
  case (3 k s caps) then show ?case by (cases s) (auto simp: sre_match.simps)
next
  case (4 s caps) then show ?case by (simp add: sre_match.simps)
next
  case (5 p q s caps)
  from 5(3) have ap: "avoids a p" and aq: "avoids a q" by auto
  have "sre_match (Seq p q) (s @ a # t) caps =
          concat (map (\<lambda>(s', caps'). sre_match q s' caps') (map (extend a t) (sre_match p s caps)))"
    by (simp add: sre_match.simps 5(1)[OF ap])
  also have "\<dots> = map (extend a t) (concat (map (\<lambda>(s', caps'). sre_match q s' caps') (sre_match p s caps)))"
    by (rule concat_map_extend) (simp add: 5(2)[OF _ refl aq])
  finally show ?case by (simp add: sre_match.simps)
next
  case (6 p q s caps) then show ?case by (auto simp: sre_match.simps)
next
  case (7 g p s caps)
  from 7(2) have ap: "avoids a p" by simp
  have "take (length (s @ a # t) - length (s' @ a # t)) (s @ a # t) = take (length s - length s') s"
    if "(s', caps') \<in> set (sre_match p s caps)" for s' caps'
    using sre_match_length[OF that] by simp
  then show ?case
    by (auto simp: sre_match.simps 7(1)[OF ap] case_prod_unfold)
next
  case (8 p s caps) then show ?case by (auto simp: sre_match.simps)
next
  case (9 p s caps)
  from 9(3) have ap: "avoids a p" by simp
  have "sre_match (MaxRepeat OneOrMore p) (s @ a # t) caps =
          concat (map (\<lambda>(s', caps').
                    if length s' < length (s @ a # t) then sre_match (MaxRepeat ZeroOrMore p) s' caps'
                    else [(s', caps')]) (map (extend a t) (sre_match p s caps)))"
    by (simp add: sre_match.simps(9)[of p "s @ a # t" caps] 9(1)[OF ap])
  also have "\<dots> = map (extend a t) (concat (map (\<lambda>(s', caps').
                    if length s' < length s then sre_match (MaxRepeat ZeroOrMore p) s' caps'
                    else [(s', caps')]) (sre_match p s caps)))"
  proof (rule concat_map_extend)
    fix s1 c1 assume m: "(s1, c1) \<in> set (sre_match p s caps)"
    show "(case (s1 @ a # t, c1) of (s', caps') \<Rightarrow>
             if length s' < length (s @ a # t) then sre_match (MaxRepeat ZeroOrMore p) s' caps'
             else [(s', caps')]) =
          map (extend a t) (case (s1, c1) of (s', caps') \<Rightarrow>
             if length s' < length s then sre_match (MaxRepeat ZeroOrMore p) s' caps'
             else [(s', caps')])"
    proof (cases "length s1 < length s")
      case True
      with 9(2)[OF m refl True] 9(3) show ?thesis by simp
    next
      case False
      then show ?thesis by simp
    qed
  qed
  finally show ?case by (simp add: sre_match.simps(9)[of p s caps])
next
  case (10 p s caps)
  from 10(3) have ap: "avoids a p" by simp
  have "sre_match (MaxRepeat ZeroOrMore p) (s @ a # t) caps =
          concat (map (\<lambda>(s', caps').
                    if length s' < length (s @ a # t) then sre_match (MaxRepeat ZeroOrMore p) s' caps'
                    else [(s', caps')]) (map (extend a t) (sre_match p s caps))) @ [(s @ a # t, caps)]"
    by (simp add: sre_match.simps(10)[of p "s @ a # t" caps] 10(1)[OF ap])
  also have "concat (map (\<lambda>(s', caps').
                    if length s' < length (s @ a # t) then sre_match (MaxRepeat ZeroOrMore p) s' caps'
                    else [(s', caps')]) (map (extend a t) (sre_match p s caps)))
       = map (extend a t) (concat (map (\<lambda>(s', caps').
                    if length s' < length s then sre_match (MaxRepeat ZeroOrMore p) s' caps'
                    else [(s', caps')]) (sre_match p s caps)))"
  proof (rule concat_map_extend)
    fix s1 c1 assume m: "(s1, c1) \<in> set (sre_match p s caps)"
    show "(case (s1 @ a # t, c1) of (s', caps') \<Rightarrow>
             if length s' < length (s @ a # t) then sre_match (MaxRepeat ZeroOrMore p) s' caps'
             else [(s', caps')]) =
          map (extend a t) (case (s1, c1) of (s', caps') \<Rightarrow>
             if length s' < length s then sre_match (MaxRepeat ZeroOrMore p) s' caps'
             else [(s', caps')])"
    proof (cases "length s1 < length s")
      case True
      with 10(2)[OF m refl True] 10(3) show ?thesis by simp
    next
      case False
      then show ?thesis by simp
    qed
  qed
  finally show ?case by (simp add: sre_match.simps(10)[of p s caps])
qed
text \<open>An expression that begins with the character \<open>a\<close> and cannot consume another.\<close>

lemma sre_match_begins_local:
  assumes "avoids a q" and "s \<noteq> []"
  shows "sre_match (Seq (Literal a) q) (s @ a # t) caps
           = map (extend a t) (sre_match (Seq (Literal a) q) s caps)"
proof -
  from assms(2) obtain x xs where s: "s = x # xs" by (cases s) auto
  show ?thesis
    unfolding s using sre_match_avoids[OF assms(1), of xs t caps]
    by (simp add: sre_match.simps(1,5))
qed
lemma sre_match_begins_shorter:
  "(s', caps') \<in> set (sre_match (Seq (Literal a) q) s caps) \<Longrightarrow> length s' < length s"
  by (cases s) (auto simp: sre_match.simps(1,5) split: if_splits dest: sre_match_length)
lemma take_diff_extend:
  "length s' \<le> length s \<Longrightarrow>
     take (length (s @ a # t) - length (s' @ a # t)) (s @ a # t) = take (length s - length s') s"
  by simp
lemma sre_search_begins_nonempty:
  assumes "sre_search (Seq (Literal a) q) s False = Some (skipped, matched, rest, caps)"
  shows "matched \<noteq> []"
  using assms
proof (induction s arbitrary: skipped)
  case Nil
  then show ?case by (simp add: sre_search.simps[of _ "[]"] sre_match.simps(1,5))
next
  case (Cons x xs)
  show ?case
  proof (cases "sre_match (Seq (Literal a) q) (x # xs) []")
    case Nil
    with Cons.prems obtain sk where "sre_search (Seq (Literal a) q) xs False = Some (sk, matched, rest, caps)"
      by (auto simp: sre_search.simps[of _ "x # xs"])
    from Cons.IH[OF this] show ?thesis .
  next
    case (Cons r rs)
    obtain s' c' where r: "r = (s', c')" by (cases r)
    with Cons have "(s', c') \<in> set (sre_match (Seq (Literal a) q) (x # xs) [])" by simp
    from sre_match_begins_shorter[OF this] have "length s' < length (x # xs)" .
    moreover from Cons r Cons.prems have "matched = take (length (x # xs) - length s') (x # xs)"
      by (auto simp: sre_search.simps[of _ "x # xs"])
    ultimately show ?thesis by auto
  qed
qed
lemma sre_search_begins_local:
  assumes "avoids a q"
  shows "sre_search (Seq (Literal a) q) (u @ a # t) False =
           (case sre_search (Seq (Literal a) q) u False of
              Some (skipped, matched, rest, caps) \<Rightarrow> Some (skipped, matched, rest @ a # t, caps)
            | None \<Rightarrow>
                map_option (\<lambda>(skipped, matched, rest, caps). (u @ skipped, matched, rest, caps))
                  (sre_search (Seq (Literal a) q) (a # t) False))"
proof (induction u)
  case Nil
  have "sre_search (Seq (Literal a) q) [] False = None"
    by (simp add: sre_search.simps[of _ "[]"] sre_match.simps(1,5))
  then show ?case by (simp add: option.map_ident case_prod_unfold)
next
  case (Cons x xs)
  let ?R = "Seq (Literal a) q"
  have loc: "sre_match ?R ((x # xs) @ a # t) [] = map (extend a t) (sre_match ?R (x # xs) [])"
    by (rule sre_match_begins_local[OF assms]) simp
  have e: "(x # xs) @ a # t = x # (xs @ a # t)" by simp
  show ?case
  proof (cases "sre_match ?R (x # xs) []")
    case Nil
    have miss: "sre_match ?R (x # (xs @ a # t)) [] = []"
      using loc unfolding Nil e by simp
    have l: "sre_search ?R ((x # xs) @ a # t) False =
               map_option (\<lambda>(skipped, matched, rest, caps). (x # skipped, matched, rest, caps))
                 (sre_search ?R (xs @ a # t) False)"
      unfolding e by (rule sre_search_miss[OF miss])
    have r: "sre_search ?R (x # xs) False =
               map_option (\<lambda>(skipped, matched, rest, caps). (x # skipped, matched, rest, caps))
                 (sre_search ?R xs False)"
      by (rule sre_search_miss[OF Nil])
    show ?thesis
      unfolding l r Cons.IH
      by (cases "sre_search ?R xs False"; cases "sre_search ?R (a # t) False")
         (simp_all add: case_prod_unfold)
  next
    case (Cons r rs)
    obtain s' c' where r: "r = (s', c')" by (cases r)
    with Cons have "(s', c') \<in> set (sre_match ?R (x # xs) [])" by simp
    from sre_match_length[OF this] have len: "length s' \<le> length (x # xs)" .
    have hit: "sre_match ?R ((x # xs) @ a # t) [] = (s' @ a # t, c') # map (extend a t) rs"
      unfolding loc Cons r by simp
    have l: "sre_search ?R ((x # xs) @ a # t) False
               = Some ([], take (length (x # xs) - length s') (x # xs), s' @ a # t, c')"
      using sre_search_hit[OF hit] unfolding take_diff_extend[OF len] .
    have r': "sre_search ?R (x # xs) False
               = Some ([], take (length (x # xs) - length s') (x # xs), s', c')"
    proof (rule sre_search_hit)
      show "sre_match ?R (x # xs) [] = (s', c') # rs" unfolding Cons r ..
    qed
    show ?thesis by (simp only: l r' option.case prod.case)
  qed
qed
text \<open>
  So the substitution loop rewrites the text before such a character on its own, and a
  place where the pattern matches is replaced whatever stands before and after it.
\<close>

lemma pattern_subx_begins_local:
  assumes "avoids a q"
  shows "pattern_subx (Seq (Literal a) q) template (u @ a # t) False =
           (case pattern_subx (Seq (Literal a) q) template u False of
              (out, n) \<Rightarrow>
                (case pattern_subx (Seq (Literal a) q) template (a # t) False of
                   (out', n') \<Rightarrow> (out @ out', n + n')))"
proof (induction "length u" arbitrary: u rule: less_induct)
  case less
  let ?R = "Seq (Literal a) q"
  show ?case
  proof (cases "sre_search ?R u False")
    case None
    then have u: "pattern_subx ?R template u False = (u, 0)"
      by (subst pattern_subx.simps) simp
    have s: "sre_search ?R (u @ a # t) False =
               map_option (\<lambda>(skipped, matched, rest, caps). (u @ skipped, matched, rest, caps))
                  (sre_search ?R (a # t) False)"
      by (simp add: sre_search_begins_local[OF assms] None)
    show ?thesis
    proof (cases "sre_search ?R (a # t) False")
      case None
      with s have "sre_search ?R (u @ a # t) False = None" by simp
      then have "pattern_subx ?R template (u @ a # t) False = (u @ a # t, 0)"
        by (subst pattern_subx.simps) simp
      moreover from None have "pattern_subx ?R template (a # t) False = (a # t, 0)"
        by (subst pattern_subx.simps) simp
      ultimately show ?thesis by (simp add: u)
    next
      case (Some found)
      obtain skipped matched rest caps where f: "found = (skipped, matched, rest, caps)"
        by (cases found)
      from s Some f have "sre_search ?R (u @ a # t) False = Some (u @ skipped, matched, rest, caps)"
        by simp
      then have "pattern_subx ?R template (u @ a # t) False =
               (case pattern_subx ?R template rest (matched = []) of
                  (out, n) \<Rightarrow> ((u @ skipped) @ expand_template template caps @ out, Suc n))"
        by (subst pattern_subx.simps) simp
      moreover from Some f have "pattern_subx ?R template (a # t) False =
               (case pattern_subx ?R template rest (matched = []) of
                  (out, n) \<Rightarrow> (skipped @ expand_template template caps @ out, Suc n))"
        by (subst pattern_subx.simps) simp
      ultimately show ?thesis by (simp add: u split: prod.splits)
    qed
  next
    case (Some found)
    obtain skipped matched rest caps where f: "found = (skipped, matched, rest, caps)"
      by (cases found)
    with Some have srch: "sre_search ?R u False = Some (skipped, matched, rest, caps)" by simp
    from sre_search_begins_nonempty[OF srch] have ne: "matched \<noteq> []" .
    from sre_search_split[OF srch] ne have "length rest < length u" by (cases matched) auto
    from less[OF this]
    have ih: "pattern_subx ?R template (rest @ a # t) False =
           (case pattern_subx ?R template rest False of
              (out, n) \<Rightarrow>
                (case pattern_subx ?R template (a # t) False of
                   (out', n') \<Rightarrow> (out @ out', n + n')))" .
    have s: "sre_search ?R (u @ a # t) False = Some (skipped, matched, rest @ a # t, caps)"
      by (simp add: sre_search_begins_local[OF assms] srch)
    have l: "pattern_subx ?R template (u @ a # t) False =
               (case pattern_subx ?R template (rest @ a # t) False of
                  (out, n) \<Rightarrow> (skipped @ expand_template template caps @ out, Suc n))"
      by (subst pattern_subx.simps) (simp add: s ne)
    have r: "pattern_subx ?R template u False =
               (case pattern_subx ?R template rest False of
                  (out, n) \<Rightarrow> (skipped @ expand_template template caps @ out, Suc n))"
      by (subst pattern_subx.simps) (simp add: srch ne)
    show ?thesis
      unfolding l r ih by (simp split: prod.splits)
  qed
qed
lemma pattern_subx_place:
  assumes "avoids a q" and "sre_match (Seq (Literal a) q) (a # x @ t) [] = (t, caps) # others"
  shows "pattern_subx (Seq (Literal a) q) (map TLiteral rep) (u @ a # x @ t) False =
           (case pattern_subx (Seq (Literal a) q) (map TLiteral rep) u False of
              (out, n) \<Rightarrow>
                (case pattern_subx (Seq (Literal a) q) (map TLiteral rep) t False of
                   (out', n') \<Rightarrow> (out @ rep @ out', n + Suc n')))"
proof -
  let ?R = "Seq (Literal a) q"
  have "take (length (a # x @ t) - length t) (a # x @ t) = a # x" by simp
  with sre_search_hit[OF assms(2)]
  have "sre_search ?R (a # x @ t) False = Some ([], a # x, t, caps)" by simp
  then have here: "pattern_subx ?R (map TLiteral rep) (a # x @ t) False =
           (case pattern_subx ?R (map TLiteral rep) t False of
              (out', n') \<Rightarrow> (rep @ out', Suc n'))"
    by (subst pattern_subx.simps) (simp add: expand_template_literals)
  show ?thesis
    unfolding pattern_subx_begins_local[OF assms(1), of "map TLiteral rep" u "x @ t"] here
    by (simp split: prod.splits)
qed
lemma apply_single_rule:
  assumes "compile pattern = Inr (re, groups)"
    and "parse_template (tokenize replacement) groups = Inr template"
  shows "apply_replacements [(pattern, replacement)] s = Inr (fst (pattern_subx re template s False))"
  by (simp add: re_sub_def re_subn_def assms split: prod.splits)
lemma rule_place:
  assumes "compile pattern = Inr (Seq (Literal a) q, groups)"
    and "parse_template (tokenize replacement) groups = Inr (map TLiteral rep)"
    and "avoids a q"
    and "\<And>t. sre_match (Seq (Literal a) q) (a # x @ t) [] = [(t, [])]"
  shows "\<exists>u' t'. apply_replacements [(pattern, replacement)] u = Inr u'
           \<and> apply_replacements [(pattern, replacement)] t = Inr t'
           \<and> apply_replacements [(pattern, replacement)] (u @ a # x @ t) = Inr (u' @ rep @ t')"
  unfolding apply_single_rule[OF assms(1,2)] pattern_subx_place[OF assms(3,4)]
  by (simp split: prod.splits)
lemma rule_two_places:
  assumes "compile pattern = Inr (Seq (Literal a) q, groups)"
    and "parse_template (tokenize replacement) groups = Inr (map TLiteral rep)"
    and "avoids a q"
    and "\<And>t. sre_match (Seq (Literal a) q) (a # x @ t) [] = [(t, [])]"
  shows "\<exists>u' v' w'. apply_replacements [(pattern, replacement)] u = Inr u'
           \<and> apply_replacements [(pattern, replacement)] v = Inr v'
           \<and> apply_replacements [(pattern, replacement)] w = Inr w'
           \<and> apply_replacements [(pattern, replacement)] (u @ (a # x) @ v @ (a # x) @ w)
               = Inr (u' @ rep @ v' @ rep @ w')"
proof -
  have "u @ (a # x) @ v @ (a # x) @ w = u @ a # x @ (v @ a # x @ w)" by simp
  then show ?thesis
    unfolding apply_single_rule[OF assms(1,2)]
    by (simp only: pattern_subx_place[OF assms(3,4)]) (simp split: prod.splits)
qed
section \<open>The two rules written with white space\<close>

text \<open>
  A run of white space before \<^verbatim>\<open><\<close> is taken whole by \<^verbatim>\<open>\s*\<close>: stopping earlier
  leaves a white space where the pattern wants \<^verbatim>\<open><\<close>.
\<close>

lemma sre_match_skip_spaces:
  assumes "\<not> is_space c"
  shows "list_all is_space ws \<Longrightarrow>
     sre_match (Seq (MaxRepeat ZeroOrMore (Category CATEGORY_SPACE)) (Seq (Literal c) q)) (ws @ s) caps
       = sre_match (Seq (MaxRepeat ZeroOrMore (Category CATEGORY_SPACE)) (Seq (Literal c) q)) s caps"
proof (induction ws)
  case Nil
  show ?case by simp
next
  case (Cons w ws)
  let ?star = "MaxRepeat ZeroOrMore (Category CATEGORY_SPACE)"
  from Cons.prems have w: "is_space w" and rest: "list_all is_space ws" by simp_all
  from w assms have "w \<noteq> c" by auto
  then have miss: "sre_match (Seq (Literal c) q) (w # ws @ s) caps = []"
    by (simp add: sre_match.simps(1,5))
  from w have star: "sre_match ?star (w # ws @ s) caps
      = sre_match ?star (ws @ s) caps @ [(w # ws @ s, caps)]"
    by (subst sre_match.simps(10)) (simp add: sre_match.simps(3))
  have "sre_match (Seq ?star (Seq (Literal c) q)) ((w # ws) @ s) caps
      = sre_match (Seq ?star (Seq (Literal c) q)) (ws @ s) caps"
    by (simp add: sre_match.simps(5)[of ?star] star miss)
  with Cons.IH[OF rest] show ?case by simp
qed
lemma add_unit_compile:
  "compile (fst (replacements ! 14)) =
     Inr (Seq (Literal (CHR ''A''))
            (seq_of (map Literal ''dd Unit'' @ [MaxRepeat ZeroOrMore (Category CATEGORY_SPACE)]
               @ map Literal ''</Button>'')), 0)"
  by code_simp
lemma add_unit_template:
  "parse_template (tokenize (snd (replacements ! 14))) 0 =
     Inr (map TLiteral (''{t('' @ [bsl, sq] @ ''propertyForm.addUnit'' @ [bsl, sq] @ '')}'' @ [newline]
            @ ''                      </Button>''))"
  by code_simp
lemma add_unit_avoids:
  "avoids (CHR ''A'') (seq_of (map Literal ''dd Unit'' @ [MaxRepeat ZeroOrMore (Category CATEGORY_SPACE)]
               @ map Literal ''</Button>''))"
  by (simp add: is_space_def)
lemma add_unit_hit:
  assumes "list_all is_space ws"
  shows "sre_match (Seq (Literal (CHR ''A''))
            (seq_of (map Literal ''dd Unit'' @ [MaxRepeat ZeroOrMore (Category CATEGORY_SPACE)]
               @ map Literal ''</Button>''))) (CHR ''A'' # (''dd Unit'' @ ws @ ''</Button>'') @ t) []
     = [(t, [])]"
proof -
  have lt: "\<not> is_space (CHR ''<'')" by (simp add: is_space_def)
  have "sre_match (Seq (MaxRepeat ZeroOrMore (Category CATEGORY_SPACE))
            (Seq (Literal (CHR ''<'')) (seq_of (map Literal ''/Button>''))))
          (ws @ ''</Button>'' @ t) []
      = sre_match (Seq (MaxRepeat ZeroOrMore (Category CATEGORY_SPACE))
            (Seq (Literal (CHR ''<'')) (seq_of (map Literal ''/Button>''))))
          (''</Button>'' @ t) []"
    by (rule sre_match_skip_spaces[OF lt assms])
  also have "\<dots> = [(t, [])]"
    by (simp add: sre_match.simps is_space_def)
  finally show ?thesis
    by (simp add: sre_match.simps(1,5))
qed
lemma remove_compile:
  "compile (fst (replacements ! 56)) =
     Inr (Seq (Literal (CHR ''R''))
            (seq_of (map Literal ''emove'' @ [MaxRepeat ZeroOrMore (Category CATEGORY_SPACE)]
               @ map Literal ''</Button>'')), 0)"
  by code_simp
lemma remove_template:
  "parse_template (tokenize (snd (replacements ! 56))) 0 =
     Inr (map TLiteral (''{t('' @ [bsl, sq] @ ''propertyForm.remove'' @ [bsl, sq] @ '')}'' @ [newline]
            @ ''                          </Button>''))"
  by code_simp
lemma remove_avoids:
  "avoids (CHR ''R'') (seq_of (map Literal ''emove'' @ [MaxRepeat ZeroOrMore (Category CATEGORY_SPACE)]
               @ map Literal ''</Button>''))"
  by (simp add: is_space_def)
lemma remove_hit:
  assumes "list_all is_space ws"
  shows "sre_match (Seq (Literal (CHR ''R''))
            (seq_of (map Literal ''emove'' @ [MaxRepeat ZeroOrMore (Category CATEGORY_SPACE)]
               @ map Literal ''</Button>''))) (CHR ''R'' # (''emove'' @ ws @ ''</Button>'') @ t) []
     = [(t, [])]"
proof -
  have lt: "\<not> is_space (CHR ''<'')" by (simp add: is_space_def)
  have "sre_match (Seq (MaxRepeat ZeroOrMore (Category CATEGORY_SPACE))
            (Seq (Literal (CHR ''<'')) (seq_of (map Literal ''/Button>''))))
          (ws @ ''</Button>'' @ t) []
      = sre_match (Seq (MaxRepeat ZeroOrMore (Category CATEGORY_SPACE))
            (Seq (Literal (CHR ''<'')) (seq_of (map Literal ''/Button>''))))
          (''</Button>'' @ t) []"
    by (rule sre_match_skip_spaces[OF lt assms])
  also have "\<dots> = [(t, [])]"
    by (simp add: sre_match.simps is_space_def)
  finally show ?thesis
    by (simp add: sre_match.simps(1,5))
qed
lemma pair_collapse: "(fst rule, snd rule) = rule"
  by simp
lemma newline_is_space: "list_all is_space [newline]"
  by (simp add: is_space_def)
text \<open>The whole script on a text with the two places.\<close>

lemma main_add_unit:
  "main ((''Add Unit'' @ [newline] @ ''</Button>'') @ '' A ''
           @ (''Add Unit'' @ [newline] @ ''</Button>''))
     = ((''{t('' @ [bsl, sq] @ ''propertyForm.addUnit'' @ [bsl, sq] @ '')}'' @ [newline]
           @ ''                      </Button>'') @ '' A ''
        @ (''{t('' @ [bsl, sq] @ ''propertyForm.addUnit'' @ [bsl, sq] @ '')}'' @ [newline]
           @ ''                      </Button>''), Inr 59)"
  by code_simp
text \<open>
  C8.  The claim is that, for a text holding \<^verbatim>\<open>Add Unit\<close>, a newline and
  \<^verbatim>\<open></Button>\<close> at two places, the rule written with \<^verbatim>\<open>\s*\<close> replaces both with the
  same text and the report records count 2.  There is no report: in the counterexample
  below the script has the same outcome on a text with two matches and on a text with one.

  What holds, for all texts \<open>u\<close>, \<open>v\<close> and \<open>w\<close> before, between and after the two places: the
  run of that rule alone replaces both places by the same text, \<^verbatim>\<open>{t(\'propertyForm.addUnit\')}\<close>,
  a newline, 22 spaces and \<^verbatim>\<open></Button>\<close>, and rewrites \<open>u\<close>, \<open>v\<close> and \<open>w\<close> as it would
  rewrite each on its own; the outcome of the script is that text and the number of rules,
  which is 1.  The whole script, with its 59 rules, replaces both places in the same way.
\<close>

theorem add_unit_both_replaced:
  "(\<exists>u' v' w'.
     apply_replacements [replacements ! 14] u = Inr u'
     \<and> apply_replacements [replacements ! 14] v = Inr v'
     \<and> apply_replacements [replacements ! 14] w = Inr w'
     \<and> apply_replacements [replacements ! 14]
         (u @ (''Add Unit'' @ [newline] @ ''</Button>'') @ v
            @ (''Add Unit'' @ [newline] @ ''</Button>'') @ w)
       = Inr (u' @ (''{t('' @ [bsl, sq] @ ''propertyForm.addUnit'' @ [bsl, sq] @ '')}'' @ [newline]
                     @ ''                      </Button>'') @ v'
                 @ (''{t('' @ [bsl, sq] @ ''propertyForm.addUnit'' @ [bsl, sq] @ '')}'' @ [newline]
                     @ ''                      </Button>'') @ w')
     \<and> script [replacements ! 14]
         (u @ (''Add Unit'' @ [newline] @ ''</Button>'') @ v
            @ (''Add Unit'' @ [newline] @ ''</Button>'') @ w)
       = (u' @ (''{t('' @ [bsl, sq] @ ''propertyForm.addUnit'' @ [bsl, sq] @ '')}'' @ [newline]
                     @ ''                      </Button>'') @ v'
                 @ (''{t('' @ [bsl, sq] @ ''propertyForm.addUnit'' @ [bsl, sq] @ '')}'' @ [newline]
                     @ ''                      </Button>'') @ w', Inr 1))
   \<and> main ((''Add Unit'' @ [newline] @ ''</Button>'') @ '' A ''
           @ (''Add Unit'' @ [newline] @ ''</Button>''))
     = ((''{t('' @ [bsl, sq] @ ''propertyForm.addUnit'' @ [bsl, sq] @ '')}'' @ [newline]
           @ ''                      </Button>'') @ '' A ''
        @ (''{t('' @ [bsl, sq] @ ''propertyForm.addUnit'' @ [bsl, sq] @ '')}'' @ [newline]
           @ ''                      </Button>''), Inr 59)"
proof -
  have x: "''Add Unit'' @ [newline] @ ''</Button>'' = CHR ''A'' # (''dd Unit'' @ [newline] @ ''</Button>'')"
    by simp
  from rule_two_places[OF add_unit_compile add_unit_template add_unit_avoids
      add_unit_hit[OF newline_is_space], of u v w]
  obtain u' v' w' where "apply_replacements [replacements ! 14] u = Inr u'"
     "apply_replacements [replacements ! 14] v = Inr v'"
     "apply_replacements [replacements ! 14] w = Inr w'"
     "apply_replacements [replacements ! 14]
         (u @ (''Add Unit'' @ [newline] @ ''</Button>'') @ v
            @ (''Add Unit'' @ [newline] @ ''</Button>'') @ w)
       = Inr (u' @ (''{t('' @ [bsl, sq] @ ''propertyForm.addUnit'' @ [bsl, sq] @ '')}'' @ [newline]
                     @ ''                      </Button>'') @ v'
                 @ (''{t('' @ [bsl, sq] @ ''propertyForm.addUnit'' @ [bsl, sq] @ '')}'' @ [newline]
                     @ ''                      </Button>'') @ w')"
    unfolding pair_collapse x by blast
  then have "\<exists>u' v' w'.
     apply_replacements [replacements ! 14] u = Inr u'
     \<and> apply_replacements [replacements ! 14] v = Inr v'
     \<and> apply_replacements [replacements ! 14] w = Inr w'
     \<and> apply_replacements [replacements ! 14]
         (u @ (''Add Unit'' @ [newline] @ ''</Button>'') @ v
            @ (''Add Unit'' @ [newline] @ ''</Button>'') @ w)
       = Inr (u' @ (''{t('' @ [bsl, sq] @ ''propertyForm.addUnit'' @ [bsl, sq] @ '')}'' @ [newline]
                     @ ''                      </Button>'') @ v'
                 @ (''{t('' @ [bsl, sq] @ ''propertyForm.addUnit'' @ [bsl, sq] @ '')}'' @ [newline]
                     @ ''                      </Button>'') @ w')
     \<and> script [replacements ! 14]
         (u @ (''Add Unit'' @ [newline] @ ''</Button>'') @ v
            @ (''Add Unit'' @ [newline] @ ''</Button>'') @ w)
       = (u' @ (''{t('' @ [bsl, sq] @ ''propertyForm.addUnit'' @ [bsl, sq] @ '')}'' @ [newline]
                     @ ''                      </Button>'') @ v'
                 @ (''{t('' @ [bsl, sq] @ ''propertyForm.addUnit'' @ [bsl, sq] @ '')}'' @ [newline]
                     @ ''                      </Button>'') @ w', Inr 1)"
    unfolding script_def by (intro exI[of _ u'] exI[of _ v'] exI[of _ w']) simp
  with main_add_unit show ?thesis by (rule conjI[rotated])
qed
theorem add_unit_count_counterexample:
  "script [replacements ! 14]
     ((''Add Unit'' @ [newline] @ ''</Button>'') @ (''Add Unit'' @ [newline] @ ''</Button>''))
   = script [replacements ! 14]
     ((''{t('' @ [bsl, sq] @ ''propertyForm.addUnit'' @ [bsl, sq] @ '')}'' @ [newline]
         @ ''                      </Button>'') @ (''Add Unit'' @ [newline] @ ''</Button>''))
   \<and> match_counts [replacements ! 14]
       ((''Add Unit'' @ [newline] @ ''</Button>'') @ (''Add Unit'' @ [newline] @ ''</Button>'')) = Inr [2]
   \<and> match_counts [replacements ! 14]
     ((''{t('' @ [bsl, sq] @ ''propertyForm.addUnit'' @ [bsl, sq] @ '')}'' @ [newline]
         @ ''                      </Button>'') @ (''Add Unit'' @ [newline] @ ''</Button>'')) = Inr [1]"
  by code_simp
section \<open>What a replacement string writes\<close>

lemma plain_replacement_not_lone: "plain_replacement r \<Longrightarrow> tokenize r \<noteq> [Lone]"
  by (induction r rule: tokenize.induct) (auto split: if_splits)
lemma parse_plain_replacement:
  "plain_replacement r \<Longrightarrow>
     parse_template (tokenize r) groups = Inr (map TLiteral (written_escapes r))"
proof (induction r rule: written_escapes.induct)
  case 1
  show ?case by simp
next
  case (2 c)
  then show ?case by (simp add: add_items_def)
next
  case (3 c d cs)
  show ?case
  proof (cases "c = bsl")
    case True
    with "3.prems" have d: "d = CHR ''n'' \<or> d = sq" and rest: "plain_replacement cs" by auto
    from plain_replacement_not_lone[OF rest] have nl: "tokenize cs \<noteq> [Lone]" .
    from d show ?thesis
    proof
      assume n: "d = CHR ''n''"
      with True "3.IH"(1) rest nl show ?thesis
        by (simp add: template_escape_def DIGITS_def add_items_def)
    next
      assume q: "d = sq"
      with True "3.IH"(2) rest nl show ?thesis
        by (simp add: template_escape_def DIGITS_def ASCIILETTERS_def add_items_def)
    qed
  next
    case False
    with "3.prems" have rest: "plain_replacement (d # cs)" by simp
    from plain_replacement_not_lone[OF rest] have nl: "tokenize (d # cs) \<noteq> [Lone]" .
    from False have "\<not> (c = bsl \<and> d = CHR ''n'')" and "\<not> (c = bsl \<and> d = sq)" by auto
    from "3.IH"(3)[OF this rest] False nl show ?thesis
      by (simp add: add_items_def)
  qed
qed
lemma replacements_are_plain:
  "list_all (\<lambda>(pattern, replacement). plain_replacement replacement
      \<and> (case literal_of (tokenize pattern) of
            Some lit \<Rightarrow> lit \<noteq> []
          | None \<Rightarrow> (pattern, replacement) = replacements ! 14
                    \<or> (pattern, replacement) = replacements ! 56)) replacements"
  by code_simp
lemma written_escapes_add_unit:
  "written_escapes (snd (replacements ! 14)) =
     ''{t('' @ [bsl, sq] @ ''propertyForm.addUnit'' @ [bsl, sq] @ '')}'' @ [newline]
        @ ''                      </Button>''"
  by code_simp
lemma written_escapes_remove:
  "written_escapes (snd (replacements ! 56)) =
     ''{t('' @ [bsl, sq] @ ''propertyForm.remove'' @ [bsl, sq] @ '')}'' @ [newline]
        @ ''                          </Button>''"
  by code_simp
lemma written_escapes_differ:
  "written_escapes (snd (replacements ! 14)) \<noteq> snd (replacements ! 14)"
  by code_simp
lemma written_escapes_capacity:
  "written_escapes (snd (replacements ! 3)) =
     ''<FormLabel>{t('' @ [bsl, sq] @ ''propertyForm.capacity'' @ [bsl, sq] @ '')}</FormLabel>''"
  by code_simp
text \<open>
  C9.  A replacement string is read as a template and not written as it stands: in the
  text the run writes at each match, backslash-n of the replacement string is one newline
  and backslash-quote is a backslash and a quote.

  For every rule whose pattern spells a non-empty literal text and whose replacement
  string holds no other escape, and every text, the run of the rule writes at each
  occurrence of the literal the replacement string read in this way, and the script
  writes that text.  Every rule of the script is of this kind but the two written with
  \<^verbatim>\<open>\s*\<close>, whose replacement strings hold no other escape either; at a place where
  one of these two matches (\<^verbatim>\<open>Add Unit\<close> or \<^verbatim>\<open>Remove\<close>, any white space \<open>ws\<close> and
  \<^verbatim>\<open></Button>\<close>), the run writes its replacement string read in this way, whatever
  stands before and after.  For the rule of \<^verbatim>\<open>Add Unit\<close> that text has a newline and
  differs from the string written in the rule set, and the whole script writes it; for the
  fourth rule it has the backslashes before the quotes.
\<close>

theorem template_escapes_reach_output:
  assumes "literal_of (tokenize pattern) = Some lit" and "lit \<noteq> []"
    and "plain_replacement replacement"
    and "list_all is_space ws"
  shows "apply_replacements [(pattern, replacement)] content
           = Inr (fst (replace_literal lit (written_escapes replacement) content))
         \<and> script [(pattern, replacement)] content
           = (fst (replace_literal lit (written_escapes replacement) content), Inr 1)
         \<and> list_all (\<lambda>(pattern, replacement). plain_replacement replacement
               \<and> (case literal_of (tokenize pattern) of
                     Some lit \<Rightarrow> lit \<noteq> []
                   | None \<Rightarrow> (pattern, replacement) = replacements ! 14
                             \<or> (pattern, replacement) = replacements ! 56)) replacements
         \<and> (\<exists>u' v'. apply_replacements [replacements ! 14] u = Inr u'
               \<and> apply_replacements [replacements ! 14] v = Inr v'
               \<and> apply_replacements [replacements ! 14] (u @ (''Add Unit'' @ ws @ ''</Button>'') @ v)
                  = Inr (u' @ written_escapes (snd (replacements ! 14)) @ v'))
         \<and> (\<exists>u' v'. apply_replacements [replacements ! 56] u = Inr u'
               \<and> apply_replacements [replacements ! 56] v = Inr v'
               \<and> apply_replacements [replacements ! 56] (u @ (''Remove'' @ ws @ ''</Button>'') @ v)
                  = Inr (u' @ written_escapes (snd (replacements ! 56)) @ v'))
         \<and> written_escapes (snd (replacements ! 14)) =
             ''{t('' @ [bsl, sq] @ ''propertyForm.addUnit'' @ [bsl, sq] @ '')}'' @ [newline]
                @ ''                      </Button>''
         \<and> written_escapes (snd (replacements ! 14)) \<noteq> snd (replacements ! 14)
         \<and> written_escapes (snd (replacements ! 3)) =
             ''<FormLabel>{t('' @ [bsl, sq] @ ''propertyForm.capacity'' @ [bsl, sq] @ '')}</FormLabel>''
         \<and> main ((''Add Unit'' @ [newline] @ ''</Button>'') @ '' A ''
                   @ (''Add Unit'' @ [newline] @ ''</Button>''))
             = (written_escapes (snd (replacements ! 14)) @ '' A ''
                  @ written_escapes (snd (replacements ! 14)), Inr 59)"
proof -
  from re_subn_literal[OF assms(1,2) parse_plain_replacement[OF assms(3)], of content]
  have run: "apply_replacements [(pattern, replacement)] content
           = Inr (fst (replace_literal lit (written_escapes replacement) content))"
    by (simp add: re_sub_def expand_template_literals split: prod.splits)
  then have scr: "script [(pattern, replacement)] content
           = (fst (replace_literal lit (written_escapes replacement) content), Inr 1)"
    by (simp add: script_def)
  have x: "''Add Unit'' @ ws @ ''</Button>'' = CHR ''A'' # (''dd Unit'' @ ws @ ''</Button>'')"
    and y: "''Remove'' @ ws @ ''</Button>'' = CHR ''R'' # (''emove'' @ ws @ ''</Button>'')"
    by simp_all
  note w14 = written_escapes_add_unit and w56 = written_escapes_remove
    and ne = written_escapes_differ and w3 = written_escapes_capacity
  have a: "\<exists>u' v'. apply_replacements [replacements ! 14] u = Inr u'
               \<and> apply_replacements [replacements ! 14] v = Inr v'
               \<and> apply_replacements [replacements ! 14] (u @ (''Add Unit'' @ ws @ ''</Button>'') @ v)
                  = Inr (u' @ written_escapes (snd (replacements ! 14)) @ v')"
    using rule_place[OF add_unit_compile add_unit_template add_unit_avoids add_unit_hit[OF assms(4)], of u v]
    unfolding pair_collapse x w14 by simp
  have r: "\<exists>u' v'. apply_replacements [replacements ! 56] u = Inr u'
               \<and> apply_replacements [replacements ! 56] v = Inr v'
               \<and> apply_replacements [replacements ! 56] (u @ (''Remove'' @ ws @ ''</Button>'') @ v)
                  = Inr (u' @ written_escapes (snd (replacements ! 56)) @ v')"
    using rule_place[OF remove_compile remove_template remove_avoids remove_hit[OF assms(4)], of u v]
    unfolding pair_collapse y w56 by simp
  have m: "main ((''Add Unit'' @ [newline] @ ''</Button>'') @ '' A ''
                   @ (''Add Unit'' @ [newline] @ ''</Button>''))
             = (written_escapes (snd (replacements ! 14)) @ '' A ''
                  @ written_escapes (snd (replacements ! 14)), Inr 59)"
    unfolding w14 by (rule main_add_unit)
  from run scr replacements_are_plain a r w14 ne w3 m show ?thesis by blast
qed
theorem template_escapes_reach_output_witness:
  "literal_of (tokenize ''Add Unit</Button>'') = Some ''Add Unit</Button>''
   \<and> ''Add Unit</Button>'' \<noteq> []
   \<and> plain_replacement (snd (replacements ! 14))
   \<and> list_all is_space ('' '' @ [newline])
   \<and> apply_replacements [(''Add Unit</Button>'', snd (replacements ! 14))]
        ''<Button>Add Unit</Button>''
      = Inr (''<Button>{t('' @ [bsl, sq] @ ''propertyForm.addUnit'' @ [bsl, sq] @ '')}'' @ [newline]
               @ ''                      </Button>'')"
proof -
  have l: "literal_of (tokenize ''Add Unit</Button>'') = Some ''Add Unit</Button>''" by code_simp
  have n: "''Add Unit</Button>'' \<noteq> []" by simp
  have p: "plain_replacement (snd (replacements ! 14))" by code_simp
  have s: "list_all is_space ('' '' @ [newline])" by (simp add: is_space_def)
  have e: "fst (replace_literal ''Add Unit</Button>'' (written_escapes (snd (replacements ! 14)))
             ''<Button>Add Unit</Button>'')
      = ''<Button>{t('' @ [bsl, sq] @ ''propertyForm.addUnit'' @ [bsl, sq] @ '')}'' @ [newline]
               @ ''                      </Button>''"
    by code_simp
  from template_escapes_reach_output[OF l n p s, of "''<Button>Add Unit</Button>''"]
  have "apply_replacements [(''Add Unit</Button>'', snd (replacements ! 14))]
        ''<Button>Add Unit</Button>''
      = Inr (''<Button>{t('' @ [bsl, sq] @ ''propertyForm.addUnit'' @ [bsl, sq] @ '')}'' @ [newline]
               @ ''                      </Button>'')"
    unfolding e by blast
  with l n p s show ?thesis by blast
qed

end
